theory Spec2Isabelle
  imports Complex_Main "HOL-Library.Multiset"
begin

section \<open>Errors and tensors\<close>

text \<open>
  The feature extractor of \<^verbatim>\<open>src/models/features_extractor.py\<close> is embedded as pure
  functions. Every way the Python can stop is a value of \<open>error\<close>: \<open>sys.exit()\<close>,
  a name that the module never bound, an index or shape error raised by the tensor
  library, and the \<open>Exception\<close> that \<open>forward\<close> raises itself.

  A float tensor of rank 2 is the list of its rows, a tensor of rank 3 the list of its
  matrices. Entries are real numbers: the code compares, selects, adds and averages them;
  rounding is not modelled and a NaN is no entry. An integer tensor (\<open>LongTensor\<close>)
  is a list of \<open>int\<close>.
\<close>

datatype error =
  SystemExit
  | NameError string
  | IndexError
  | RuntimeError
  | Exception string

type_synonym tensor1 = "real list"
type_synonym tensor2 = "real list list"
type_synonym tensor3 = "real list list list"

section \<open>Construction\<close>

text \<open>
  The arguments of \<open>FeaturesExtractor.__init__\<close> that the constructor reads to decide
  what it builds. (The observation space, the device and the activation class are passed
  on to library constructors only.)
\<close>

record init_args =
  a_input_dim_features_extractor :: nat
  a_gconv_type :: string
  a_graph_pooling :: string
  a_freeze_graph :: bool
  a_graph_has_relu :: bool
  a_max_n_nodes :: nat
  a_max_n_machines :: nat
  a_n_mlp_layers_features_extractor :: nat
  a_n_layers_features_extractor :: nat
  a_hidden_dim_features_extractor :: nat
  a_n_attention_heads :: nat
  a_reverse_adj :: bool
  a_residual :: bool
  a_normalize :: bool
  a_conflicts :: string

text \<open>
  What \<open>self.features_extractors\<close> holds after construction: one convolution per layer,
  with the channel counts it was built with.
\<close>

datatype conv_module =
  GINConv_module nat
  | GATv2Conv_module nat nat nat
  | EGConv_module nat nat
  | PDNConv_module nat nat

text \<open>The attributes of \<open>self\<close> that \<open>__init__\<close> sets and \<open>forward\<close> reads.\<close>

record extractor =
  self_conflicts :: string
  self_highmem_conflict_clique :: bool
  self_mediummem_conflict_clique :: bool
  self_residual :: bool
  self_normalize :: bool
  self_max_n_nodes :: nat
  self_features_dim :: nat
  self_max_n_machines :: nat
  self_freeze_graph :: bool
  self_reverse_adj :: bool
  self_hidden_dim_features_extractor :: nat
  self_gconv_type :: string
  self_graph_has_relu :: bool
  self_graph_pooling :: string
  self_n_layers_features_extractor :: nat
  self_features_extractors :: "conv_module list"

text \<open>
  The names the module binds before the class body runs: the imports of lines 27 to 35
  and the class itself. Line 30 imports \<open>GINEConv\<close>, \<open>GATv2Conv\<close>, \<open>EGConv\<close> and
  \<open>PDNConv\<close>. Reading a global name that is not bound raises \<open>NameError\<close>.
\<close>

definition module_globals :: "string list" where
  "module_globals =
     [''BaseFeaturesExtractor'', ''torch'', ''nn'',
      ''GINEConv'', ''GATv2Conv'', ''EGConv'', ''PDNConv'',
      ''MLP'', ''AgentObservation'', ''GraphNorm'', ''BatchNorm'', ''sys'',
      ''FeaturesExtractor'']"

definition load_global :: "string \<Rightarrow> error + unit" where
  "load_global name =
     (if name \<in> set module_globals then Inr () else Inl (NameError name))"

text \<open>
  The body of the loop of lines 129 to 206 for one layer: the chain of \<open>if\<close>/\<open>elif\<close> on
  \<open>self.gconv_type\<close>. Each branch reads the class it instantiates from the module's
  globals; the last branch prints and calls \<open>sys.exit()\<close>.
\<close>

definition make_conv :: "init_args \<Rightarrow> error + conv_module" where
  "make_conv a =
     (let h = a_hidden_dim_features_extractor a in
      if a_gconv_type a = ''gin'' then
        (case load_global ''GINConv'' of
           Inl e \<Rightarrow> Inl e
         | Inr _ \<Rightarrow> Inr (GINConv_module h))
      else if a_gconv_type a = ''gatv2'' then
        (case load_global ''GATv2Conv'' of
           Inl e \<Rightarrow> Inl e
         | Inr _ \<Rightarrow> Inr (GATv2Conv_module h h (a_n_attention_heads a)))
      else if a_gconv_type a = ''eg'' then
        (case load_global ''EGConv'' of
           Inl e \<Rightarrow> Inl e
         | Inr _ \<Rightarrow> Inr (EGConv_module h h))
      else if a_gconv_type a = ''pdn'' then
        (case load_global ''PDNConv'' of
           Inl e \<Rightarrow> Inl e
         | Inr _ \<Rightarrow> Inr (PDNConv_module h h))
      else Inl SystemExit)"

text \<open>\<open>for layer in range(self.n_layers_features_extractor)\<close>: the first failure stops it.\<close>

fun make_layers :: "init_args \<Rightarrow> nat \<Rightarrow> error + conv_module list" where
  "make_layers a 0 = Inr []"
| "make_layers a (Suc n) =
     (case make_conv a of
        Inl e \<Rightarrow> Inl e
      | Inr c \<Rightarrow>
          (case make_layers a n of
             Inl e \<Rightarrow> Inl e
           | Inr cs \<Rightarrow> Inr (c # cs)))"

text \<open>
  \<open>__init__\<close>: \<open>features_dim\<close> is computed on lines 67 and 68, the two clique flags are
  the constants of lines 62 and 63.
\<close>

definition FeaturesExtractor_init :: "init_args \<Rightarrow> error + extractor" where
  "FeaturesExtractor_init a =
     (case make_layers a (a_n_layers_features_extractor a) of
        Inl e \<Rightarrow> Inl e
      | Inr cs \<Rightarrow>
          Inr \<lparr> self_conflicts = a_conflicts a,
                self_highmem_conflict_clique = False,
                self_mediummem_conflict_clique = True,
                self_residual = a_residual a,
                self_normalize = a_normalize a,
                self_max_n_nodes = a_max_n_nodes a,
                self_features_dim =
                  (a_input_dim_features_extractor a
                   + a_hidden_dim_features_extractor a * (a_n_layers_features_extractor a + 1)) * 2,
                self_max_n_machines = a_max_n_machines a,
                self_freeze_graph = a_freeze_graph a,
                self_reverse_adj = a_reverse_adj a,
                self_hidden_dim_features_extractor = a_hidden_dim_features_extractor a,
                self_gconv_type = a_gconv_type a,
                self_graph_has_relu = a_graph_has_relu a,
                self_graph_pooling = a_graph_pooling a,
                self_n_layers_features_extractor = a_n_layers_features_extractor a,
                self_features_extractors = cs \<rparr>)"

text \<open>A configuration used to run the constructor: two layers of width 8 on 10 input features.\<close>

definition example_args :: "string \<Rightarrow> nat \<Rightarrow> init_args" where
  "example_args g n =
     \<lparr> a_input_dim_features_extractor = 10,
       a_gconv_type = g,
       a_graph_pooling = ''max'',
       a_freeze_graph = False,
       a_graph_has_relu = True,
       a_max_n_nodes = 4,
       a_max_n_machines = 2,
       a_n_mlp_layers_features_extractor = 2,
       a_n_layers_features_extractor = n,
       a_hidden_dim_features_extractor = 8,
       a_n_attention_heads = 2,
       a_reverse_adj = False,
       a_residual = True,
       a_normalize = False,
       a_conflicts = ''att'' \<rparr>"

section \<open>Graph batches\<close>

text \<open>
  The batch that \<open>observation.to_graph()\<close> returns (a \<open>torch_geometric\<close> batch, built
  outside this file): the node features \<open>x\<close> with their column count \<open>x.shape[1]\<close>
  (a list of rows loses it when there is no row), the two rows of \<open>edge_index\<close>, the
  graph id of every node, the offsets \<open>ptr\<close> of the graphs in the node array, and the
  number of graphs.
\<close>

record graph_state =
  gs_x :: tensor2
  gs_x_shape1 :: nat
  gs_edge_index :: "int list \<times> int list"
  gs_batch :: "int list"
  gs_ptr :: "nat list"
  gs_num_graphs :: nat

text \<open>
  \<open>AgentObservation\<close> is not part of the sources; \<open>forward\<close> uses the three calls
  below and nothing else of it.
\<close>

record observation =
  get_batch_size :: nat
  get_n_nodes :: nat
  to_graph :: graph_state

text \<open>
  The invariants of a graph batch: \<open>x\<close> is a matrix, the edge index has two rows of one
  length, \<open>ptr\<close> has one offset per graph and a last one, starts at 0, does not decrease
  and ends at the node count, and \<open>batch\<close> gives every node of graph \<open>g\<close> the id
  \<open>g\<close>. The model follows the code on batches of this kind; indexing \<open>ptr\<close> or
  \<open>batch\<close> beyond their length, which the library refuses, is not modelled.
\<close>

definition wf_graph_state :: "graph_state \<Rightarrow> bool" where
  "wf_graph_state gs \<longleftrightarrow>
     list_all (\<lambda>r. length r = gs_x_shape1 gs) (gs_x gs)
     \<and> length (fst (gs_edge_index gs)) = length (snd (gs_edge_index gs))
     \<and> length (gs_batch gs) = length (gs_x gs)
     \<and> length (gs_ptr gs) = gs_num_graphs gs + 1
     \<and> gs_ptr gs ! 0 = 0
     \<and> sorted (gs_ptr gs)
     \<and> gs_ptr gs ! gs_num_graphs gs = length (gs_x gs)
     \<and> list_all (\<lambda>g. list_all (\<lambda>i. gs_batch gs ! i = int g)
                        [gs_ptr gs ! g ..< gs_ptr gs ! (g + 1)])
          [0 ..< gs_num_graphs gs]"


section \<open>Graph augmentation\<close>

text \<open>
  The local variables of \<open>forward\<close> that the augmentation updates. \<open>edge_index_0\<close> and
  \<open>edge_index_1\<close> are the two rows of \<open>edge_index\<close>. The code keeps, for every layer,
  \<open>edge_attr[layer]\<close>, which is always \<open>self.edge_embedder[layer]\<close> applied to a tensor
  of edge-type codes, one stage's rows concatenated after the other's; an embedding is a
  row lookup per code, so the model keeps the sequence of codes, \<open>edge_codes\<close>, and
  looks the rows up when a layer needs them.
\<close>

record locals =
  features :: tensor2
  edge_index_0 :: "int list"
  edge_index_1 :: "int list"
  edge_codes :: "int list"
  batch_id :: "int list"
  node_offset :: nat

text \<open>Lines 224 to 235. \<open>batch_id\<close> is bound only when \<open>self.normalize\<close> is set.\<close>

definition initial_locals :: "extractor \<Rightarrow> graph_state \<Rightarrow> locals" where
  "initial_locals self gs =
     \<lparr> features = gs_x gs,
       edge_index_0 = fst (gs_edge_index gs),
       edge_index_1 = snd (gs_edge_index gs),
       edge_codes = replicate (length (fst (gs_edge_index gs))) 1,
       batch_id = (if self_normalize self then gs_batch gs else []),
       node_offset = length (gs_x gs) \<rparr>"

subsection \<open>The virtual pooling node\<close>

text \<open>
  Lines 239 to 243: \<open>ei0\<close> repeats the index of graph \<open>i\<close>'s virtual node once per node
  of the graph, \<open>ei1\<close> lists the nodes of the graph.
\<close>

definition pool_ei0 :: "graph_state \<Rightarrow> nat \<Rightarrow> int list" where
  "pool_ei0 gs off =
     concat (map (\<lambda>i. replicate (gs_ptr gs ! (i + 1) - gs_ptr gs ! i) (int (off + i)))
               [0 ..< gs_num_graphs gs])"

definition pool_ei1 :: "graph_state \<Rightarrow> int list" where
  "pool_ei1 gs =
     concat (map (\<lambda>i. map int [gs_ptr gs ! i ..< gs_ptr gs ! (i + 1)])
               [0 ..< gs_num_graphs gs])"

text \<open>Lines 237 to 264.\<close>

definition pooling_stage :: "extractor \<Rightarrow> graph_state \<Rightarrow> locals \<Rightarrow> locals" where
  "pooling_stage self gs s =
     (if self_graph_pooling self = ''learn'' then
        (let n_batch = gs_num_graphs gs;
             graphnode = replicate n_batch (replicate (gs_x_shape1 gs) 0);
             ei0 = pool_ei0 gs (node_offset s);
             ei1 = pool_ei1 gs
         in s \<lparr> features := features s @ graphnode,
                edge_index_0 :=
                  (if \<not> self_reverse_adj self then edge_index_0 s @ ei0
                   else edge_index_0 s @ ei1),
                edge_index_1 :=
                  (if \<not> self_reverse_adj self then edge_index_1 s @ ei1
                   else edge_index_1 s @ ei0),
                edge_codes := edge_codes s @ replicate (length ei0) 2,
                batch_id :=
                  (if self_normalize self then batch_id s @ map int [0 ..< n_batch]
                   else batch_id s),
                node_offset := node_offset s + n_batch \<rparr>)
      else s)"

subsection \<open>Machine ids\<close>

text \<open>
  \<open>features[.., 6 : 6 + max_n_machines]\<close> of one row, and its width for a row of \<open>F\<close>
  columns.
\<close>

definition machine_block :: "nat \<Rightarrow> real list \<Rightarrow> real list" where
  "machine_block M r = take M (drop 6 r)"

definition block_width :: "nat \<Rightarrow> nat \<Rightarrow> nat" where
  "block_width F M = min F (6 + M) - 6"

text \<open>
  \<open>torch.max(machine, dim=1)\<close> on one row: the largest value and the index of its first
  occurrence (\<open>torch.argmax\<close> returns the same index). On a row of width 0 the library
  raises; the callers test the width first.
\<close>

definition max_values :: "real list \<Rightarrow> real" where
  "max_values r = Max (set r)"

definition max_indices :: "real list \<Rightarrow> nat" where
  "max_indices r = length (takeWhile (\<lambda>v. v \<noteq> max_values r) r)"

text \<open>\<open>torch.where(mmax[0] == 0, -1, mmax[1])\<close> on one row.\<close>

definition machineid_row :: "real list \<Rightarrow> int" where
  "machineid_row blk = (if max_values blk = 0 then - 1 else int (max_indices blk))"

subsection \<open>Clique conflicts: three strategies\<close>

text \<open>
  Each strategy returns the edges it adds as triples (source, target, edge-type code), in
  the order in which the code appends them to \<open>edge_index[0]\<close>, \<open>edge_index[1]\<close> and
  the code tensor that it embeds.

  Lines 272 to 301, one comparison of all nodes with all nodes. Row \<open>i\<close>, column \<open>j\<close> of
  the expanded tensors \<open>m1\<close>, \<open>b1\<close>, \<open>aff1\<close> hold the value of node \<open>j\<close>, those of
  \<open>m2\<close>, \<open>b2\<close>, \<open>aff2\<close> the value of node \<open>i\<close>; \<open>nonzero\<close> lists the pairs row by row.
  \<open>torch.max\<close> over a block of width 0 raises \<open>IndexError\<close>; expanding \<open>batch\<close> to
  \<open>nnodes\<close> columns raises when it has another length.
\<close>

definition clique_highmem ::
  "nat \<Rightarrow> graph_state \<Rightarrow> tensor2 \<Rightarrow> error + (int \<times> int \<times> int) list" where
  "clique_highmem M gs feats =
     (let nnodes = length (gs_x gs);
          machine = map (machine_block M) (take nnodes feats)
      in if block_width (gs_x_shape1 gs) M = 0 then Inl IndexError
         else if length (gs_batch gs) \<noteq> nnodes then Inl RuntimeError
         else
           (let machineid = map machineid_row machine;
                aff = map (\<lambda>r. r ! 0) (take nnodes feats);
                m2 = map (\<lambda>m. if m = - 1 then - 2 else m) machineid;
                conflicts =
                  concat (map (\<lambda>i. map (\<lambda>j. (i, j))
                     (filter (\<lambda>j. machineid ! j = m2 ! i
                                   \<and> gs_batch gs ! j = gs_batch gs ! i
                                   \<and> \<not> (aff ! j \<noteq> 0 \<and> aff ! i \<noteq> 0)
                                   \<and> i \<noteq> j)
                        [0 ..< nnodes]))
                     [0 ..< nnodes])
            in Inr (map (\<lambda>(i, j). (int i, int j, machineid ! i + 3)) conflicts)))"

text \<open>
  Lines 304 to 326, the same comparison for the nodes \<open>ptr[bi] .. ptr[bi + 1]\<close> of one
  graph; the local indices are shifted by \<open>ptr[bi]\<close>.
\<close>

definition clique_mediummem_graph ::
  "nat \<Rightarrow> graph_state \<Rightarrow> tensor2 \<Rightarrow> nat \<Rightarrow> (int \<times> int \<times> int) list" where
  "clique_mediummem_graph M gs feats bi =
     (let p = gs_ptr gs ! bi;
          q = gs_ptr gs ! (bi + 1);
          rows = take (q - p) (drop p feats);
          nnodes = q - p;
          machineid = map (\<lambda>r. machineid_row (machine_block M r)) rows;
          aff = map (\<lambda>r. r ! 0) rows;
          m2 = map (\<lambda>m. if m = - 1 then - 2 else m) machineid;
          conflicts =
            concat (map (\<lambda>i. map (\<lambda>j. (i, j))
               (filter (\<lambda>j. machineid ! j = m2 ! i
                             \<and> \<not> (aff ! j \<noteq> 0 \<and> aff ! i \<noteq> 0)
                             \<and> i \<noteq> j)
                  [0 ..< nnodes]))
               [0 ..< nnodes])
      in map (\<lambda>(i, j). (int i + int p, int j + int p, machineid ! i + 3)) conflicts)"

text \<open>The loop over the graphs appends each graph's edges after those of the graphs before.\<close>

definition clique_mediummem ::
  "nat \<Rightarrow> graph_state \<Rightarrow> tensor2 \<Rightarrow> error + (int \<times> int \<times> int) list" where
  "clique_mediummem M gs feats =
     (if 0 < gs_num_graphs gs \<and> block_width (gs_x_shape1 gs) M = 0 then Inl IndexError
      else Inr (foldl (\<lambda>acc bi. acc @ clique_mediummem_graph M gs feats bi) []
                  [0 ..< gs_num_graphs gs]))"

text \<open>
  Lines 329 to 371, the nested scan. Reading column 0 of a matrix without columns raises.
  For one node \<open>ni1\<close> and a later node \<open>ni2\<close> of the same graph the body appends the
  two directions with the code of \<open>ni1\<close>.
\<close>

definition exhaustive_pair ::
  "tensor2 \<Rightarrow> real list \<Rightarrow> nat \<Rightarrow> nat \<Rightarrow> (int \<times> int \<times> int) list" where
  "exhaustive_pair machinecpu aff ni1 ni2 =
     (let machine1 = machinecpu ! ni1;
          aff1 = (aff ! ni1 = 1);
          mid = int (max_indices machine1) + 3;
          machine2 = machinecpu ! ni2
      in if list_all (\<lambda>v. v = 0) machine2 then []
         else
           (let aff2 = (aff ! ni2 = 1)
            in if machine1 = machine2 \<and> \<not> (aff1 \<and> aff2)
               then [(int ni1, int ni2, mid), (int ni2, int ni1, mid)]
               else []))"

definition exhaustive_node ::
  "tensor2 \<Rightarrow> real list \<Rightarrow> nat \<Rightarrow> nat \<Rightarrow> (int \<times> int \<times> int) list" where
  "exhaustive_node machinecpu aff hi ni1 =
     (if list_all (\<lambda>v. v = 0) (machinecpu ! ni1) then []
      else concat (map (exhaustive_pair machinecpu aff ni1) [ni1 + 1 ..< hi]))"

definition clique_exhaustive ::
  "nat \<Rightarrow> graph_state \<Rightarrow> tensor2 \<Rightarrow> error + (int \<times> int \<times> int) list" where
  "clique_exhaustive M gs feats =
     (let nnodes = length (gs_x gs);
          featcpu = take nnodes feats
      in if gs_x_shape1 gs = 0 then Inl IndexError
         else
           (let machinecpu = map (machine_block M) featcpu;
                aff = map (\<lambda>r. r ! 0) featcpu
            in Inr (concat (map (\<lambda>bi.
                      concat (map (exhaustive_node machinecpu aff (gs_ptr gs ! (bi + 1)))
                                [gs_ptr gs ! bi ..< gs_ptr gs ! (bi + 1)]))
                    [0 ..< gs_num_graphs gs]))))"

text \<open>Appending the new edges to the edge index and their codes to the code sequence.\<close>

definition append_edges :: "(int \<times> int \<times> int) list \<Rightarrow> locals \<Rightarrow> locals" where
  "append_edges new s =
     s \<lparr> edge_index_0 := edge_index_0 s @ map fst new,
         edge_index_1 := edge_index_1 s @ map (\<lambda>e. fst (snd e)) new,
         edge_codes := edge_codes s @ map (\<lambda>e. snd (snd e)) new \<rparr>"

subsection \<open>Node conflicts: one virtual node per machine\<close>

text \<open>\<open>features[:, 6 : 6 + max_n_machines] = 0\<close> on one row.\<close>

definition zero_block :: "nat \<Rightarrow> real list \<Rightarrow> real list" where
  "zero_block M r = take 6 r @ replicate (length (machine_block M r)) 0 @ drop (6 + M) r"

text \<open>
  Lines 375 to 399. \<open>idxaffected\<close> are the nodes whose machine id is not \<open>-1\<close>; each
  is linked with the virtual node of its machine in its graph, in both directions. The
  test \<open>self.conflicts != "att"\<close> of line 398 holds in this branch.
\<close>

definition conflict_node :: "extractor \<Rightarrow> graph_state \<Rightarrow> locals \<Rightarrow> error + locals" where
  "conflict_node self gs s =
     (let M = self_max_n_machines self;
          nnodes = length (gs_x gs);
          n_batch = gs_num_graphs gs;
          machine = map (machine_block M) (take nnodes (features s))
      in if block_width (gs_x_shape1 gs) M = 0 then Inl IndexError
         else
           (let machineid = map machineid_row machine;
                machine_nodes = replicate (n_batch * M) (replicate (gs_x_shape1 gs) 0);
                feats = features s @ machine_nodes;
                nbid = concat (map (\<lambda>i. replicate M (int i)) [0 ..< n_batch]);
                idxaffected = filter (\<lambda>i. machineid ! i \<noteq> - 1) [0 ..< nnodes]
            in if list_ex (\<lambda>i. length (gs_batch gs) \<le> i) idxaffected then Inl IndexError
               else
                 (let machineid' = map (\<lambda>i. machineid ! i) idxaffected;
                      bid = map (\<lambda>i. gs_batch gs ! i) idxaffected;
                      targetmachinenode =
                        map2 (\<lambda>b m. b * int M + m + int (node_offset s)) bid machineid';
                      machine_embeder =
                        map (\<lambda>m. m + 3) machineid' @ map (\<lambda>m. m + 3 + int M) machineid'
                  in Inr (s \<lparr> features := map (zero_block M) feats,
                              edge_index_0 :=
                                edge_index_0 s @ map int idxaffected @ targetmachinenode,
                              edge_index_1 :=
                                edge_index_1 s @ targetmachinenode @ map int idxaffected,
                              edge_codes := edge_codes s @ machine_embeder,
                              batch_id :=
                                (if self_normalize self then batch_id s @ nbid
                                 else batch_id s),
                              node_offset := node_offset s + n_batch * M \<rparr>))))"

subsection \<open>The conflict stage and the direction of the edges\<close>

text \<open>Lines 267 to 399: the strategy is chosen by the two flags that \<open>__init__\<close> sets.\<close>

definition clique_edges ::
  "extractor \<Rightarrow> graph_state \<Rightarrow> tensor2 \<Rightarrow> error + (int \<times> int \<times> int) list" where
  "clique_edges self gs feats =
     (if self_highmem_conflict_clique self then
        clique_highmem (self_max_n_machines self) gs feats
      else if self_mediummem_conflict_clique self then
        clique_mediummem (self_max_n_machines self) gs feats
      else clique_exhaustive (self_max_n_machines self) gs feats)"

definition conflict_stage :: "extractor \<Rightarrow> graph_state \<Rightarrow> locals \<Rightarrow> error + locals" where
  "conflict_stage self gs s =
     (if self_conflicts self = ''clique'' then
        (case clique_edges self gs (features s) of
           Inl e \<Rightarrow> Inl e
         | Inr new \<Rightarrow> Inr (append_edges new s))
      else if self_conflicts self = ''node'' then conflict_node self gs s
      else Inr s)"

text \<open>Lines 401 and 402.\<close>

definition reverse_stage :: "extractor \<Rightarrow> locals \<Rightarrow> locals" where
  "reverse_stage self s =
     (if \<not> self_reverse_adj self
      then s \<lparr> edge_index_0 := edge_index_1 s, edge_index_1 := edge_index_0 s \<rparr>
      else s)"

text \<open>The augmentation as a whole: lines 224 to 402.\<close>

definition augment :: "extractor \<Rightarrow> graph_state \<Rightarrow> error + locals" where
  "augment self gs =
     (case conflict_stage self gs (pooling_stage self gs (initial_locals self gs)) of
        Inl e \<Rightarrow> Inl e
      | Inr s \<Rightarrow> Inr (reverse_stage self s))"

section \<open>Message passing\<close>

text \<open>
  The learned sub-modules of the extractor, by what their \<open>forward\<close> computes. Their
  weights are set outside this file, so the functions are parameters of the model:
  the node embedder (an \<open>MLP\<close>), the weight row of \<open>edge_embedder[layer]\<close> for an edge
  code, the convolution of a layer (called with its \<open>fill_value\<close>, which line 417 sets
  for the attention variant only, the features, the two rows of the edge index and the
  edge attributes), the \<open>MLP\<close> after an attention layer, and the graph norms (called with
  \<open>batch_id\<close>).
\<close>

record modules =
  embedder :: "tensor2 \<Rightarrow> tensor2"
  edge_embedder :: "nat \<Rightarrow> int \<Rightarrow> real list"
  features_extractors ::
    "nat \<Rightarrow> real list option \<Rightarrow> tensor2 \<Rightarrow> int list \<times> int list \<Rightarrow> tensor2 \<Rightarrow> tensor2"
  mlps :: "nat \<Rightarrow> tensor2 \<Rightarrow> tensor2"
  norm0 :: "tensor2 \<Rightarrow> int list \<Rightarrow> tensor2"
  norm1 :: "tensor2 \<Rightarrow> int list \<Rightarrow> tensor2"
  norms :: "nat \<Rightarrow> tensor2 \<Rightarrow> int list \<Rightarrow> tensor2"
  normsbis :: "nat \<Rightarrow> tensor2 \<Rightarrow> int list \<Rightarrow> tensor2"

text \<open>
  \<open>torch.nn.functional.elu\<close> with its default \<open>alpha = 1\<close>, on one entry. The
  exponential has no executable equation, so a run of the model evaluates \<open>elu\<close> on
  positive entries only.
\<close>

definition expm1 :: "real \<Rightarrow> real" where
  "expm1 v = exp v - 1"

declare expm1_def [code del]

definition elu :: "real \<Rightarrow> real" where
  "elu v = (if 0 < v then v else expm1 v)"

text \<open>
  Lines 416 to 424: what a layer computes from the current features before the result is
  recorded. Every call returns a new tensor.
\<close>

definition layer_output ::
  "extractor \<Rightarrow> modules \<Rightarrow> locals \<Rightarrow> nat \<Rightarrow> tensor2 \<Rightarrow> tensor2" where
  "layer_output self m s layer t =
     (let gat = (self_gconv_type self = ''gatv2'');
          fill_value = (if gat then Some (edge_embedder m layer 0) else None);
          t1 = features_extractors m layer fill_value t
                 (edge_index_0 s, edge_index_1 s)
                 (map (edge_embedder m layer) (edge_codes s));
          t2 = (if self_graph_has_relu self \<or> gat then map (map elu) t1 else t1);
          t3 = (if gat then mlps m layer t2 else t2);
          t4 = (if self_normalize self then norms m layer t3 (batch_id s) else t3)
      in t4)"

subsection \<open>Tensor objects\<close>

text \<open>
  \<open>features_list\<close> holds references to tensor objects, and line 427 adds in place into
  the object that line 425 has just appended. The store is the list of the tensor objects
  allocated so far; a reference is an index into it.
\<close>

record mp_state =
  heap :: "tensor2 list"
  features_ref :: nat
  features_list :: "nat list"

definition alloc :: "tensor2 list \<Rightarrow> tensor2 \<Rightarrow> tensor2 list \<times> nat" where
  "alloc h t = (h @ [t], length h)"

definition same_shape :: "tensor2 \<Rightarrow> tensor2 \<Rightarrow> bool" where
  "same_shape a b \<longleftrightarrow> map length a = map length b"

definition tensor_add :: "tensor2 \<Rightarrow> tensor2 \<Rightarrow> tensor2" where
  "tensor_add a b = map2 (map2 (+)) a b"

text \<open>
  \<open>a += b\<close> on tensor objects: the object \<open>a\<close> is overwritten with the sum. The operands
  have one shape here (the hidden width is the same in every layer); the model reports
  operands of different shapes as an error and does not follow the library's broadcasting
  of a dimension of size 1.
\<close>

definition iadd :: "tensor2 list \<Rightarrow> nat \<Rightarrow> nat \<Rightarrow> error + tensor2 list" where
  "iadd h a b =
     (if same_shape (h ! a) (h ! b) then Inr (h [a := tensor_add (h ! a) (h ! b)])
      else Inl RuntimeError)"

text \<open>Lines 405 to 413: the input features and the embedded features are recorded.\<close>

definition mp_init :: "extractor \<Rightarrow> modules \<Rightarrow> locals \<Rightarrow> mp_state" where
  "mp_init self m s =
     (let f0 = (if self_normalize self then norm0 m (features s) (batch_id s) else features s);
          (h0, r0) = alloc [] f0;
          e = embedder m f0;
          f1 = (if self_normalize self then norm1 m e (batch_id s) else e);
          (h1, r1) = alloc h0 f1
      in \<lparr> heap = h1, features_ref = r1, features_list = [r0, r1] \<rparr>)"

text \<open>
  Lines 416 to 429, one pass of the loop body: the layer's output becomes a new object,
  its reference is appended, and with \<open>self.residual\<close> the object of \<open>features_list[-2]\<close>
  is added into it in place; \<open>normsbis\<close> then returns yet another object.
\<close>

definition layer_step ::
  "extractor \<Rightarrow> modules \<Rightarrow> locals \<Rightarrow> nat \<Rightarrow> mp_state \<Rightarrow> error + mp_state" where
  "layer_step self m s layer st =
     (let (h1, r1) = alloc (heap st) (layer_output self m s layer (heap st ! features_ref st));
          fl = features_list st @ [r1]
      in if self_residual self then
           (case iadd h1 r1 (fl ! (length fl - 2)) of
              Inl e \<Rightarrow> Inl e
            | Inr h2 \<Rightarrow>
                if self_normalize self then
                  (let (h3, r3) = alloc h2 (normsbis m layer (h2 ! r1) (batch_id s))
                   in Inr \<lparr> heap = h3, features_ref = r3, features_list = fl \<rparr>)
                else Inr \<lparr> heap = h2, features_ref = r1, features_list = fl \<rparr>)
         else Inr \<lparr> heap = h1, features_ref = r1, features_list = fl \<rparr>)"

fun run_layers ::
  "extractor \<Rightarrow> modules \<Rightarrow> locals \<Rightarrow> nat list \<Rightarrow> mp_state \<Rightarrow> error + mp_state" where
  "run_layers self m s [] st = Inr st"
| "run_layers self m s (layer # ls) st =
     (case layer_step self m s layer st of
        Inl e \<Rightarrow> Inl e
      | Inr st' \<Rightarrow> run_layers self m s ls st')"

text \<open>
  The tensors that \<open>features_list\<close> refers to when the loop is over, in the order of the
  list: what line 430 concatenates.
\<close>

definition message_passing ::
  "extractor \<Rightarrow> modules \<Rightarrow> locals \<Rightarrow> error + tensor2 list" where
  "message_passing self m s =
     (case run_layers self m s [0 ..< self_n_layers_features_extractor self] (mp_init self m s) of
        Inl e \<Rightarrow> Inl e
      | Inr st \<Rightarrow> Inr (map (\<lambda>r. heap st ! r) (features_list st)))"

text \<open>\<open>torch.cat(features_list, axis=1)\<close>: the tensors must have one row count.\<close>

definition cat_axis1 :: "tensor2 list \<Rightarrow> error + tensor2" where
  "cat_axis1 ts =
     (if ts = [] then Inl RuntimeError
      else if list_all (\<lambda>t. length t = length (hd ts)) ts
      then Inr (map (\<lambda>i. concat (map (\<lambda>t. t ! i) ts)) [0 ..< length (hd ts)])
      else Inl RuntimeError)"

section \<open>Readout\<close>

text \<open>
  \<open>t.reshape(b, n, -1)\<close> of a matrix: the entries in row-major order are cut into
  \<open>b\<close> blocks of \<open>n\<close> rows; the last dimension is inferred. The library raises when
  \<open>b * n\<close> is 0 or does not divide the number of entries.
\<close>

definition inferred_dim :: "nat \<Rightarrow> nat \<Rightarrow> tensor2 \<Rightarrow> nat" where
  "inferred_dim b n t = length (concat t) div (b * n)"

definition reshape3 :: "nat \<Rightarrow> nat \<Rightarrow> tensor2 \<Rightarrow> error + tensor3" where
  "reshape3 b n t =
     (let flat = concat t;
          k = inferred_dim b n t
      in if b * n = 0 \<or> length flat mod (b * n) \<noteq> 0 then Inl RuntimeError
         else Inr (map (\<lambda>i. map (\<lambda>j. take k (drop ((i * n + j) * k) flat)) [0 ..< n])
                     [0 ..< b]))"

text \<open>
  Line 437, \<open>torch.max(node_features, dim=1)\<close>: for every graph and every column \<open>k\<close> of
  the \<open>K\<close> columns the largest entry over the nodes. No rounding takes place.
\<close>

definition pool_max :: "nat \<Rightarrow> tensor3 \<Rightarrow> tensor2" where
  "pool_max K node_features =
     map (\<lambda>g. map (\<lambda>k. Max (set (map (\<lambda>r. r ! k) g))) [0 ..< K]) node_features"

subsection \<open>Single-precision arithmetic\<close>

text \<open>
  The tensors of the extractor hold \<open>float32\<close> numbers, and lines 440 and 441 compute
  with them: a division and a matrix product. \<open>float32 x\<close> is the binary32 number
  nearest to \<open>x\<close>, the even one of two nearest: 24 significant bits, the unit in the
  last place \<open>2 ^ (e - 23)\<close> for \<open>2 ^ e \<le> \<bar>x\<bar> < 2 ^ (e + 1)\<close>, and \<open>2 ^ - 149\<close> below \<open>2 ^ - 126\<close>.
  The infinities that the library returns beyond the largest binary32 number have no
  counterpart among the reals; the model is of the finite range.
\<close>

definition round_half_even :: "real \<Rightarrow> int" where
  "round_half_even z =
     (let f = \<lfloor>z\<rfloor>; d = z - of_int f
      in if d < 1 / 2 then f
         else if 1 / 2 < d then f + 1
         else if even f then f else f + 1)"

definition pow2 :: "int \<Rightarrow> real" where
  "pow2 k = (if 0 \<le> k then 2 ^ nat k else 1 / 2 ^ nat (- k))"

text \<open>\<open>ilog2 n\<close> is the largest \<open>k\<close> with \<open>2 ^ k \<le> n\<close>, for \<open>1 \<le> n\<close>.\<close>

function ilog2 :: "int \<Rightarrow> int" where
  "ilog2 n = (if n \<le> 1 then 0 else 1 + ilog2 (n div 2))"
  by pat_completeness auto
termination by (relation "measure nat") auto

text \<open>
  The exponent \<open>e\<close> of a positive number \<open>a\<close>, \<open>2 ^ e \<le> a < 2 ^ (e + 1)\<close>: for \<open>a < 1\<close>
  it is \<open>- k\<close> for the least \<open>k\<close> with \<open>1 / a \<le> 2 ^ k\<close>.
\<close>

definition exponent :: "real \<Rightarrow> int" where
  "exponent a =
     (if 1 \<le> a then ilog2 \<lfloor>a\<rfloor>
      else - ilog2 (2 * \<lceil>1 / a\<rceil> - 1))"

definition float32 :: "real \<Rightarrow> real" where
  "float32 x =
     (if x = 0 then 0
      else
        (let a = \<bar>x\<bar>;
             ulp = pow2 (max (exponent a) (- 126) - 23)
         in sgn x * (of_int (round_half_even (a / ulp)) * ulp)))"

text \<open>
  Lines 440 and 441. \<open>torch.ones(n_nodes) / n_nodes\<close> holds the rounded quotient
  \<open>1 / n_nodes\<close>, and \<open>torch.matmul\<close> of this vector with every graph's matrix gives, for
  every column, the sum over the nodes of the weight times the entry. The sum is
  accumulated in single precision in the order of the rows, every product and every
  partial sum rounded, so the result depends on the order of the nodes.
\<close>

definition dot32 :: "real \<Rightarrow> real list \<Rightarrow> real" where
  "dot32 w col = foldl (\<lambda>acc v. float32 (acc + float32 (w * v))) 0 col"

definition pool_avg :: "nat \<Rightarrow> nat \<Rightarrow> tensor3 \<Rightarrow> tensor2" where
  "pool_avg K n_nodes node_features =
     (let graph_pooling = float32 (1 / real n_nodes)
      in map (\<lambda>g. map (\<lambda>k. dot32 graph_pooling (map (\<lambda>r. r ! k) g)) [0 ..< K])
           node_features)"

text \<open>The message of the exception of line 445.\<close>

definition pooling_not_recognized :: "string \<Rightarrow> error" where
  "pooling_not_recognized gp =
     Exception (''Graph pooling '' @ gp
                @ '' not recognized. Only accepted pooling are max and avg'')"

text \<open>
  Lines 436 to 445: the graph embedding. \<open>feats\<close> is the concatenated tensor of line 430,
  \<open>node_features\<close> its first rows reshaped, \<open>K\<close> their width.
\<close>

definition graph_embedding ::
  "extractor \<Rightarrow> observation \<Rightarrow> tensor2 \<Rightarrow> nat \<Rightarrow> tensor3 \<Rightarrow> error + tensor2" where
  "graph_embedding self obs feats K node_features =
     (let gs = to_graph obs;
          n_nodes = get_n_nodes obs;
          n_batch = gs_num_graphs gs
      in if self_graph_pooling self = ''max'' then Inr (pool_max K node_features)
         else if self_graph_pooling self = ''avg'' then Inr (pool_avg K n_nodes node_features)
         else if self_graph_pooling self = ''learn''
           then Inr (take n_batch (drop (length (gs_x gs)) feats))
         else Inl (pooling_not_recognized (self_graph_pooling self)))"

text \<open>
  Lines 447 to 451. The graph embedding is reshaped to \<open>(batch_size, 1, -1)\<close> and expanded
  to the shape of the node features: its one row per graph is repeated for every node, a
  last dimension of size 1 is repeated along the columns, and any other width that is
  not \<open>K\<close> is refused. The result appends the repeated row to every node's row.
\<close>

definition expand_cat :: "nat \<Rightarrow> nat \<Rightarrow> nat \<Rightarrow> tensor3 \<Rightarrow> tensor3 \<Rightarrow> error + tensor3" where
  "expand_cat K K' n_nodes node_features ge =
     (if K' = K then
        Inr (map2 (\<lambda>g e. map (\<lambda>r. r @ hd e) g) node_features ge)
      else if K' = 1 then
        Inr (map2 (\<lambda>g e. map (\<lambda>r. r @ replicate K (hd (hd e))) g) node_features ge)
      else Inl RuntimeError)"

definition readout :: "extractor \<Rightarrow> observation \<Rightarrow> tensor2 \<Rightarrow> error + tensor3" where
  "readout self obs feats =
     (let batch_size = get_batch_size obs;
          n_nodes = get_n_nodes obs;
          rows = take (length (gs_x (to_graph obs))) feats;
          K = inferred_dim batch_size n_nodes rows
      in case reshape3 batch_size n_nodes rows of
           Inl e \<Rightarrow> Inl e
         | Inr node_features \<Rightarrow>
             (case graph_embedding self obs feats K node_features of
                Inl e \<Rightarrow> Inl e
              | Inr emb \<Rightarrow>
                  (case reshape3 batch_size 1 emb of
                     Inl e \<Rightarrow> Inl e
                   | Inr ge \<Rightarrow>
                       expand_cat K (inferred_dim batch_size 1 emb) n_nodes node_features ge)))"

section \<open>The forward pass\<close>

text \<open>Lines 212 to 451.\<close>

definition forward :: "extractor \<Rightarrow> modules \<Rightarrow> observation \<Rightarrow> error + tensor3" where
  "forward self m obs =
     (case augment self (to_graph obs) of
        Inl e \<Rightarrow> Inl e
      | Inr s \<Rightarrow>
          (case message_passing self m s of
             Inl e \<Rightarrow> Inl e
           | Inr fl \<Rightarrow>
               (case cat_axis1 fl of
                  Inl e \<Rightarrow> Inl e
                | Inr feats \<Rightarrow> readout self obs feats)))"

section \<open>Derived notions and examples\<close>

text \<open>
  The edges that the conflict stage appends: the columns of the edge index after the stage,
  beyond those it found.
\<close>

definition conflict_edges_added :: "locals \<Rightarrow> locals \<Rightarrow> (int \<times> int) list" where
  "conflict_edges_added s s' =
     drop (length (edge_index_0 s)) (zip (edge_index_0 s') (edge_index_1 s'))"

text \<open>
  A batch of two graphs on two machines, with eight features per node: three tasks of
  machine 0, none of them scheduled, then a task of machine 0 and a scheduled task of
  machine 1.
\<close>

definition example_graph :: graph_state where
  "example_graph =
     \<lparr> gs_x = [[0, 0, 0, 0, 0, 0, 1, 0],
               [0, 0, 0, 0, 0, 0, 1, 0],
               [0, 0, 0, 0, 0, 0, 1, 0],
               [0, 0, 0, 0, 0, 0, 1, 0],
               [1, 0, 0, 0, 0, 0, 0, 1]],
       gs_x_shape1 = 8,
       gs_edge_index = ([0, 1, 3], [1, 2, 4]),
       gs_batch = [0, 0, 0, 1, 1],
       gs_ptr = [0, 3, 5],
       gs_num_graphs = 2 \<rparr>"

text \<open>An extractor as \<open>__init__\<close> leaves it, by conflict mode, pooling mode and direction.\<close>

definition example_self :: "string \<Rightarrow> string \<Rightarrow> bool \<Rightarrow> extractor" where
  "example_self c p radj =
     \<lparr> self_conflicts = c,
       self_highmem_conflict_clique = False,
       self_mediummem_conflict_clique = True,
       self_residual = True,
       self_normalize = False,
       self_max_n_nodes = 3,
       self_features_dim = 20,
       self_max_n_machines = 2,
       self_freeze_graph = False,
       self_reverse_adj = radj,
       self_hidden_dim_features_extractor = 1,
       self_gconv_type = ''eg'',
       self_graph_has_relu = True,
       self_graph_pooling = p,
       self_n_layers_features_extractor = 1,
       self_features_extractors = [EGConv_module 1 1] \<rparr>"

text \<open>The local variables when the conflict stage starts on the example.\<close>

definition example_locals :: "string \<Rightarrow> string \<Rightarrow> locals" where
  "example_locals c p =
     pooling_stage (example_self c p False) example_graph
       (initial_locals (example_self c p False) example_graph)"

text \<open>
  The edges of a state that carry the pooling code 2, and those that carry another code,
  as (row 0, row 1) pairs in the order of the edge index.
\<close>

definition pooling_edges :: "locals \<Rightarrow> (int \<times> int) list" where
  "pooling_edges s =
     map fst (filter (\<lambda>ec. snd ec = 2)
                (zip (zip (edge_index_0 s) (edge_index_1 s)) (edge_codes s)))"

definition other_edges :: "locals \<Rightarrow> (int \<times> int) list" where
  "other_edges s =
     map fst (filter (\<lambda>ec. snd ec \<noteq> 2)
                (zip (zip (edge_index_0 s) (edge_index_1 s)) (edge_codes s)))"

text \<open>
  The conflict edges as the specification words them: two different nodes of one graph,
  assigned to the same machine, not both already scheduled, are joined in both directions
  by an edge tagged with the machine id plus 3. \<open>node_machineid\<close> and \<open>node_aff\<close> read
  the machine id and the affectation flag of a node of \<open>x\<close>.
\<close>

definition node_machineid :: "nat \<Rightarrow> graph_state \<Rightarrow> nat \<Rightarrow> int" where
  "node_machineid M gs i = machineid_row (machine_block M (gs_x gs ! i))"






text \<open>
  A single graph of four nodes on two machines, and the observation that holds it.
\<close>

definition example_graph4 :: graph_state where
  "example_graph4 =
     \<lparr> gs_x = [[0, 1, 0, 0, 0, 0, 1, 0],
               [0, 2, 0, 0, 0, 0, 0, 1],
               [1, 3, 0, 0, 0, 0, 1, 0],
               [0, 4, 0, 0, 0, 0, 0, 0]],
       gs_x_shape1 = 8,
       gs_edge_index = ([0, 2], [1, 3]),
       gs_batch = [0, 0, 0, 0],
       gs_ptr = [0, 4],
       gs_num_graphs = 1 \<rparr>"

definition example_obs :: observation where
  "example_obs = \<lparr> get_batch_size = 1, get_n_nodes = 4, to_graph = example_graph4 \<rparr>"

text \<open>
  Sub-modules of hidden width 1 to run the forward pass on: the embedder sums a row and
  adds 1, a convolution adds to every node the number of edges and 1, the attention head keeps the
  first column, the norms change nothing.
\<close>

definition example_modules :: modules where
  "example_modules =
     \<lparr> embedder = map (\<lambda>r. [sum_list r + 1]),
       edge_embedder = (\<lambda>layer c. [of_int c]),
       features_extractors = (\<lambda>layer fill t ei ea. map (\<lambda>r. [hd r + real (length ea) + 1]) t),
       mlps = (\<lambda>layer t. map (\<lambda>r. [hd r]) t),
       norm0 = (\<lambda>t b. t),
       norm1 = (\<lambda>t b. t),
       norms = (\<lambda>layer t b. t),
       normsbis = (\<lambda>layer t b. t) \<rparr>"

text \<open>
  The tensors that the entries of \<open>features_list\<close> refer to, and the invariant of the
  loop: the current features are the object of the last entry, and every entry refers to
  an allocated object.
\<close>

definition entries :: "mp_state \<Rightarrow> tensor2 list" where
  "entries st = map (\<lambda>r. heap st ! r) (features_list st)"

definition aliased :: "mp_state \<Rightarrow> bool" where
  "aliased st \<longleftrightarrow>
     features_list st \<noteq> [] \<and> features_ref st = last (features_list st)
     \<and> list_all (\<lambda>r. r < length (heap st)) (features_list st)"

text \<open>The local variables after the augmentation of the four-node example, without conflicts.\<close>

definition example_locals4 :: locals where
  "example_locals4 =
     reverse_stage (example_self ''att'' ''max'' False)
       (pooling_stage (example_self ''att'' ''max'' False) example_graph4
          (initial_locals (example_self ''att'' ''max'' False) example_graph4))"

text \<open>
  The task nodes with a machine block that is not all zero, and the virtual node that
  line 389 computes for a task: the machine nodes of graph \<open>b\<close> start at
  \<open>node_offset + b * max_n_machines\<close>.
\<close>

definition assigned_tasks :: "nat \<Rightarrow> graph_state \<Rightarrow> nat list" where
  "assigned_tasks M gs =
     filter (\<lambda>i. \<not> list_all (\<lambda>v. v = 0) (machine_block M (gs_x gs ! i)))
       [0 ..< length (gs_x gs)]"

definition targetmachinenode :: "nat \<Rightarrow> graph_state \<Rightarrow> nat \<Rightarrow> nat \<Rightarrow> int" where
  "targetmachinenode M gs off i =
     gs_batch gs ! i * int M + node_machineid M gs i + int off"


text \<open>
  A matrix of \<open>n\<close> rows and \<open>w\<close> columns. The contracts of the sub-modules, as the
  constructor configures them: the embedder, the convolutions (the attention variant
  through its head) and the heads return one row of the hidden width per input row, the
  norms keep the shape of their input. The contract of the observation: the batch is well
  formed, its graphs are as many as \<open>get_batch_size\<close> says and have \<open>get_n_nodes\<close> nodes
  each, and neither number is 0.
\<close>

definition has_shape :: "nat \<Rightarrow> nat \<Rightarrow> tensor2 \<Rightarrow> bool" where
  "has_shape n w t \<longleftrightarrow> length t = n \<and> list_all (\<lambda>r. length r = w) t"

definition modules_contract :: "extractor \<Rightarrow> modules \<Rightarrow> bool" where
  "modules_contract self m \<longleftrightarrow>
     (\<forall>t. has_shape (length t) (self_hidden_dim_features_extractor self) (embedder m t))
     \<and> (\<forall>layer fill t ei ea.
           if self_gconv_type self = ''gatv2''
           then length (features_extractors m layer fill t ei ea) = length t
           else has_shape (length t) (self_hidden_dim_features_extractor self)
                  (features_extractors m layer fill t ei ea))
     \<and> (\<forall>layer t. has_shape (length t) (self_hidden_dim_features_extractor self)
                      (mlps m layer t))
     \<and> (\<forall>t b. same_shape (norm0 m t b) t)
     \<and> (\<forall>t b. same_shape (norm1 m t b) t)
     \<and> (\<forall>layer t b. same_shape (norms m layer t b) t)
     \<and> (\<forall>layer t b. same_shape (normsbis m layer t b) t)"

definition wf_observation :: "observation \<Rightarrow> bool" where
  "wf_observation obs \<longleftrightarrow>
     wf_graph_state (to_graph obs)
     \<and> 0 < get_batch_size obs \<and> 0 < get_n_nodes obs
     \<and> length (gs_x (to_graph obs)) = get_batch_size obs * get_n_nodes obs
     \<and> gs_num_graphs (to_graph obs) = get_batch_size obs"

text \<open>
  The shapes during message passing on \<open>n\<close> nodes: the first entry of the list has the
  input width \<open>F\<close>, every later entry and the current features the hidden width \<open>H\<close>.
\<close>

definition shaped :: "nat \<Rightarrow> nat \<Rightarrow> nat \<Rightarrow> mp_state \<Rightarrow> bool" where
  "shaped n F H st \<longleftrightarrow>
     2 \<le> length (features_list st)
     \<and> list_all (\<lambda>r. r < length (heap st)) (features_list st)
     \<and> features_ref st < length (heap st)
     \<and> has_shape n H (heap st ! features_ref st)
     \<and> has_shape n F (heap st ! hd (features_list st))
     \<and> list_all (\<lambda>r. has_shape n H (heap st ! r)) (tl (features_list st))"

section \<open>Construction: results\<close>

lemma load_global_GINConv: "load_global ''GINConv'' = Inl (NameError ''GINConv'')"
  by (simp add: load_global_def module_globals_def)

lemma make_conv_gin: "a_gconv_type a = ''gin'' \<Longrightarrow> make_conv a = Inl (NameError ''GINConv'')"
  by (simp add: make_conv_def load_global_GINConv)

text \<open>
  C4. Construction should fail exactly for an unrecognised convolution type. The branch
  for \<open>''gin''\<close> is one of the recognised variants, but it instantiates \<open>GINConv\<close>, a
  name the module never imports (line 30 imports \<open>GINEConv\<close>): with one layer or more the
  constructor stops with \<open>NameError\<close> instead of completing.
\<close>

theorem init_gin_raises_NameError:
  "FeaturesExtractor_init (example_args ''gin'' 2) = Inl (NameError ''GINConv'')"
proof -
  have g: "a_gconv_type (example_args ''gin'' 2) = ''gin''"
    by (simp add: example_args_def)
  have n: "a_n_layers_features_extractor (example_args ''gin'' 2) = Suc (Suc 0)"
    by (simp add: example_args_def)
  show ?thesis
    by (simp add: FeaturesExtractor_init_def n make_conv_gin [OF g])
qed

section \<open>Graph augmentation: results\<close>

lemma foldl_append_concat:
  "foldl (\<lambda>acc x. acc @ f x) a xs = a @ concat (map f xs)"
  by (induction xs arbitrary: a) auto

lemma machineid_row_nonneg: "machineid_row blk \<noteq> - 1 \<Longrightarrow> 0 \<le> machineid_row blk"
  by (simp add: machineid_row_def split: if_splits)

lemma length_pool_ei: "length (pool_ei0 gs off) = length (pool_ei1 gs)"
  by (simp add: pool_ei0_def pool_ei1_def length_concat comp_def)

lemma highmem_no_self_loop:
  assumes "clique_highmem M gs feats = Inr new" and "(a, b, c) \<in> set new"
  shows "a \<noteq> b"
proof -
  from assms obtain i j :: nat where "a = int i" "b = int j" "i \<noteq> j"
    by (auto simp: clique_highmem_def Let_def split: if_splits)
  then show ?thesis by simp
qed

lemma mediummem_graph_no_self_loop:
  assumes "(a, b, c) \<in> set (clique_mediummem_graph M gs feats bi)"
  shows "a \<noteq> b"
proof -
  from assms obtain i j p :: nat where "a = int i + int p" "b = int j + int p" "i \<noteq> j"
    by (auto simp: clique_mediummem_graph_def Let_def)
  then show ?thesis by simp
qed

lemma mediummem_no_self_loop:
  assumes "clique_mediummem M gs feats = Inr new" and "(a, b, c) \<in> set new"
  shows "a \<noteq> b"
proof -
  from assms(1) have "new = concat (map (clique_mediummem_graph M gs feats) [0 ..< gs_num_graphs gs])"
    by (simp add: clique_mediummem_def foldl_append_concat split: if_splits)
  with assms(2) obtain bi where "(a, b, c) \<in> set (clique_mediummem_graph M gs feats bi)"
    by auto
  then show ?thesis by (rule mediummem_graph_no_self_loop)
qed

lemma exhaustive_pair_no_self_loop:
  assumes "ni1 < ni2" and "(a, b, c) \<in> set (exhaustive_pair mc aff ni1 ni2)"
  shows "a \<noteq> b"
proof -
  from assms(2) have "(a = int ni1 \<and> b = int ni2) \<or> (a = int ni2 \<and> b = int ni1)"
    by (auto simp: exhaustive_pair_def Let_def split: if_splits)
  with assms(1) show ?thesis by auto
qed

lemma exhaustive_node_no_self_loop:
  assumes "(a, b, c) \<in> set (exhaustive_node mc aff hi ni1)"
  shows "a \<noteq> b"
proof -
  from assms have "(a, b, c) \<in> set (concat (map (exhaustive_pair mc aff ni1) [ni1 + 1 ..< hi]))"
    by (simp add: exhaustive_node_def split: if_splits)
  then obtain ni2 where "ni2 \<in> set [ni1 + 1 ..< hi]" and "(a, b, c) \<in> set (exhaustive_pair mc aff ni1 ni2)"
    by auto
  then have "ni1 < ni2" and "(a, b, c) \<in> set (exhaustive_pair mc aff ni1 ni2)"
    by simp_all
  then show ?thesis by (rule exhaustive_pair_no_self_loop)
qed

lemma exhaustive_no_self_loop:
  assumes "clique_exhaustive M gs feats = Inr new" and "(a, b, c) \<in> set new"
  shows "a \<noteq> b"
proof -
  define mc where "mc = map (machine_block M) (take (length (gs_x gs)) feats)"
  define aff where "aff = map (\<lambda>r. r ! 0) (take (length (gs_x gs)) feats)"
  from assms(1) have "new = concat (map (\<lambda>bi.
       concat (map (exhaustive_node mc aff (gs_ptr gs ! (bi + 1)))
                 [gs_ptr gs ! bi ..< gs_ptr gs ! (bi + 1)])) [0 ..< gs_num_graphs gs])"
    by (simp add: clique_exhaustive_def Let_def mc_def aff_def split: if_splits)
  with assms(2) obtain bi ni1 where "(a, b, c) \<in> set (exhaustive_node mc aff (gs_ptr gs ! (bi + 1)) ni1)"
    by auto
  then show ?thesis by (rule exhaustive_node_no_self_loop)
qed

lemma clique_edges_no_self_loop:
  assumes "clique_edges self gs feats = Inr new" and "(a, b, c) \<in> set new"
  shows "a \<noteq> b"
proof (cases "self_highmem_conflict_clique self")
  case True
  with assms show ?thesis by (simp add: clique_edges_def highmem_no_self_loop)
next
  case False
  show ?thesis
  proof (cases "self_mediummem_conflict_clique self")
    case True
    with False assms show ?thesis by (simp add: clique_edges_def mediummem_no_self_loop)
  next
    case m: False
    with False assms show ?thesis by (simp add: clique_edges_def exhaustive_no_self_loop)
  qed
qed


lemma map2_same: "map2 f (map g xs) (map h xs) = map (\<lambda>x. f (g x) (h x)) xs"
  by (induction xs) auto

lemma zip_append_drop:
  "length a = length b \<Longrightarrow> drop (length a) (zip (a @ c) (b @ d)) = zip c d"
  by simp




lemma length_machine_block: "length (machine_block M r) = block_width (length r) M"
  by (simp add: machine_block_def block_width_def)

lemma length_filter_nth:
  "length (filter (\<lambda>i. P (xs ! i)) [0 ..< length xs]) = length (filter P xs)"
proof -
  have "filter P xs = filter P (map (\<lambda>i. xs ! i) [0 ..< length xs])"
    by (simp add: map_nth)
  also have "\<dots> = map (\<lambda>i. xs ! i) (filter (\<lambda>i. P (xs ! i)) [0 ..< length xs])"
    by (simp add: filter_map comp_def)
  finally show ?thesis by (metis length_map)
qed

text \<open>What the node branch appends, written with the nodes it selects.\<close>

lemma conflict_node_result:
  assumes r: "conflict_node self gs s = Inr s'"
    and t: "take (length (gs_x gs)) (features s) = gs_x gs"
  defines "M \<equiv> self_max_n_machines self"
  defines "mid \<equiv> \<lambda>i. machineid_row (machine_block M (gs_x gs ! i))"
  defines "idx \<equiv> filter (\<lambda>i. mid i \<noteq> - 1) [0 ..< length (gs_x gs)]"
  defines "hub \<equiv> \<lambda>i. gs_batch gs ! i * int M + mid i + int (node_offset s)"
  shows "edge_index_0 s' = edge_index_0 s @ map int idx @ map hub idx"
    and "edge_index_1 s' = edge_index_1 s @ map hub idx @ map int idx"
    and "edge_codes s' = edge_codes s @ map (\<lambda>i. mid i + 3) idx @ map (\<lambda>i. mid i + 3 + int M) idx"
    and "list_all (\<lambda>i. i < length (gs_batch gs)) idx"
proof -
  define machineid where "machineid = map machineid_row (map (machine_block M) (gs_x gs))"
  have mid_nth: "machineid ! i = mid i" if "i < length (gs_x gs)" for i
    using that by (simp add: mid_def machineid_def)
  have idx_eq: "filter (\<lambda>i. machineid ! i \<noteq> - 1) [0 ..< length (gs_x gs)] = idx"
    unfolding idx_def by (rule filter_cong) (simp_all add: mid_nth)
  have in_idx: "i < length (gs_x gs)" if "i \<in> set idx" for i
    using that by (simp add: idx_def)
  have m1: "map (\<lambda>i. machineid ! i) idx = map mid idx"
    by (rule map_cong) (simp_all add: mid_nth in_idx)
  from r have s': "s' = s \<lparr> features := map (zero_block M) (features s
                         @ replicate (gs_num_graphs gs * M) (replicate (gs_x_shape1 gs) 0)),
                edge_index_0 := edge_index_0 s @ map int idx
                   @ map2 (\<lambda>b m. b * int M + m + int (node_offset s))
                       (map (\<lambda>i. gs_batch gs ! i) idx) (map mid idx),
                edge_index_1 := edge_index_1 s
                   @ map2 (\<lambda>b m. b * int M + m + int (node_offset s))
                       (map (\<lambda>i. gs_batch gs ! i) idx) (map mid idx) @ map int idx,
                edge_codes := edge_codes s @ map (\<lambda>m. m + 3) (map mid idx)
                   @ map (\<lambda>m. m + 3 + int M) (map mid idx),
                batch_id := (if self_normalize self
                   then batch_id s @ concat (map (\<lambda>i. replicate M (int i)) [0 ..< gs_num_graphs gs])
                   else batch_id s),
                node_offset := node_offset s + gs_num_graphs gs * M \<rparr>"
    unfolding conflict_node_def Let_def t M_def [symmetric] machineid_def [symmetric] idx_eq m1
    by (simp split: if_splits)
  show "edge_index_0 s' = edge_index_0 s @ map int idx @ map hub idx"
    by (simp add: s' map2_same hub_def)
  show "edge_index_1 s' = edge_index_1 s @ map hub idx @ map int idx"
    by (simp add: s' map2_same hub_def)
  show "edge_codes s' = edge_codes s @ map (\<lambda>i. mid i + 3) idx @ map (\<lambda>i. mid i + 3 + int M) idx"
    by (simp add: s' comp_def)
  from r show "list_all (\<lambda>i. i < length (gs_batch gs)) idx"
    unfolding conflict_node_def Let_def t M_def [symmetric] machineid_def [symmetric] idx_eq
    by (simp add: list_ex_iff list_all_iff not_le split: if_splits)
qed

lemma conflict_node_succeeds:
  assumes "0 < block_width (gs_x_shape1 gs) (self_max_n_machines self)"
    and "length (gs_batch gs) = length (gs_x gs)"
  shows "\<exists>s'. conflict_node self gs s = Inr s'"
  using assms by (simp add: conflict_node_def Let_def list_ex_iff)

lemma features_pooling_stage:
  "take (length (gs_x gs)) (features (pooling_stage self gs (initial_locals self gs))) = gs_x gs"
  by (simp add: pooling_stage_def initial_locals_def Let_def)

lemma node_offset_pooling_stage:
  "length (gs_x gs) \<le> node_offset (pooling_stage self gs (initial_locals self gs))"
  by (simp add: pooling_stage_def initial_locals_def Let_def)

lemma lengths_pooling_stage:
  assumes "length (fst (gs_edge_index gs)) = length (snd (gs_edge_index gs))"
  shows "length (edge_index_0 (pooling_stage self gs (initial_locals self gs)))
         = length (edge_index_1 (pooling_stage self gs (initial_locals self gs)))"
  using assms by (simp add: pooling_stage_def initial_locals_def Let_def length_pool_ei)


lemma added_after_append:
  assumes "length a = length b"
  shows "drop (length a) (zip (a @ c) (b @ d)) = zip c d"
    and "zip (a @ c) (b @ d) = zip a b @ zip c d"
  using assms by simp_all

text \<open>
  C6. Whatever the conflict mode and the clique strategy, no edge that the conflict stage
  appends has its source equal to its target: the edge index after the stage is the one
  before it followed by the appended edges, and each of these joins two different nodes.
  (The graph ids of \<open>batch\<close> are not negative.)
\<close>

theorem conflict_stage_no_self_loop:
  assumes e: "length (fst (gs_edge_index gs)) = length (snd (gs_edge_index gs))"
    and b: "list_all (\<lambda>g. 0 \<le> g) (gs_batch gs)"
    and s: "s = pooling_stage self gs (initial_locals self gs)"
    and r: "conflict_stage self gs s = Inr s'"
  shows "zip (edge_index_0 s') (edge_index_1 s')
           = zip (edge_index_0 s) (edge_index_1 s) @ conflict_edges_added s s'
         \<and> list_all (\<lambda>(a, b). a \<noteq> b) (conflict_edges_added s s')"
proof -
  have len: "length (edge_index_0 s) = length (edge_index_1 s)"
    unfolding s using e by (rule lengths_pooling_stage)
  consider (clique) "self_conflicts self = ''clique''"
    | (node) "self_conflicts self \<noteq> ''clique''" "self_conflicts self = ''node''"
    | (none) "self_conflicts self \<noteq> ''clique''" "self_conflicts self \<noteq> ''node''"
    by blast
  then show ?thesis
  proof cases
    case clique
    with r obtain new where new: "clique_edges self gs (features s) = Inr new"
      and s': "s' = append_edges new s"
      by (auto simp: conflict_stage_def split: sum.splits)
    have added: "conflict_edges_added s s' = map (\<lambda>e. (fst e, fst (snd e))) new"
      by (simp add: conflict_edges_added_def s' append_edges_def len zip_map_map zip_same_conv_map)
    have z: "zip (edge_index_0 s') (edge_index_1 s')
               = zip (edge_index_0 s) (edge_index_1 s) @ map (\<lambda>e. (fst e, fst (snd e))) new"
      by (simp add: s' append_edges_def len zip_map_map zip_same_conv_map)
    have "fst e \<noteq> fst (snd e)" if "e \<in> set new" for e
      using clique_edges_no_self_loop [OF new, of "fst e" "fst (snd e)" "snd (snd e)"] that
      by simp
    then show ?thesis by (auto simp: added z list_all_iff)
  next
    case node
    with r have r': "conflict_node self gs s = Inr s'"
      by (simp add: conflict_stage_def)
    have t: "take (length (gs_x gs)) (features s) = gs_x gs"
      unfolding s by (rule features_pooling_stage)
    define M where "M = self_max_n_machines self"
    define mid where "mid i = machineid_row (machine_block M (gs_x gs ! i))" for i
    define idx where "idx = filter (\<lambda>i. mid i \<noteq> - 1) [0 ..< length (gs_x gs)]"
    define hub where "hub i = gs_batch gs ! i * int M + mid i + int (node_offset s)" for i
    note res = conflict_node_result [OF r' t, folded M_def, folded mid_def, folded idx_def,
        folded hub_def]
    have off: "length (gs_x gs) \<le> node_offset s"
      unfolding s by (rule node_offset_pooling_stage)
    have added: "conflict_edges_added s s'
                   = map (\<lambda>i. (int i, hub i)) idx @ map (\<lambda>i. (hub i, int i)) idx"
      by (simp add: conflict_edges_added_def res(1,2) len zip_map_map zip_same_conv_map comp_def)
    have z: "zip (edge_index_0 s') (edge_index_1 s')
               = zip (edge_index_0 s) (edge_index_1 s)
                 @ map (\<lambda>i. (int i, hub i)) idx @ map (\<lambda>i. (hub i, int i)) idx"
      by (simp add: res(1,2) len zip_map_map zip_same_conv_map comp_def)
    have "int i < hub i" if "i \<in> set idx" for i
    proof -
      from that have i: "i < length (gs_x gs)" and m: "mid i \<noteq> - 1"
        by (simp_all add: idx_def)
      from m have "0 \<le> mid i" unfolding mid_def by (rule machineid_row_nonneg)
      moreover from res(4) that have "i < length (gs_batch gs)"
        by (simp add: list_all_iff)
      with b have "0 \<le> gs_batch gs ! i" by (simp add: list_all_length)
      then have "0 \<le> gs_batch gs ! i * int M" by simp
      ultimately show ?thesis using i off by (simp add: hub_def)
    qed
    then have "int i \<noteq> hub i \<and> hub i \<noteq> int i" if "i \<in> set idx" for i
      using that by fastforce
    then show ?thesis by (auto simp: added z list_all_iff)
  next
    case none
    with r have "s' = s" by (simp add: conflict_stage_def)
    then show ?thesis by (simp add: conflict_edges_added_def len)
  qed
qed


lemma ptr_cover:
  assumes "gs_ptr gs ! 0 = 0"
  shows "i < gs_ptr gs ! k \<Longrightarrow> \<exists>g<k. gs_ptr gs ! g \<le> i \<and> i < gs_ptr gs ! (g + 1)"
proof (induction k)
  case 0
  with assms show ?case by simp
next
  case (Suc k)
  show ?case
  proof (cases "i < gs_ptr gs ! k")
    case True
    with Suc.IH obtain g where "g < k" "gs_ptr gs ! g \<le> i" "i < gs_ptr gs ! (g + 1)" by blast
    then show ?thesis by (intro exI [of _ g]) simp
  next
    case False
    with Suc.prems show ?thesis by (intro exI [of _ k]) simp
  qed
qed

lemma wf_batch_cover:
  assumes wf: "wf_graph_state gs" and i: "i < length (gs_x gs)"
  shows "\<exists>g<gs_num_graphs gs. gs_ptr gs ! g \<le> i \<and> i < gs_ptr gs ! (g + 1)
           \<and> gs_batch gs ! i = int g"
proof -
  from wf have p0: "gs_ptr gs ! 0 = 0" and pn: "gs_ptr gs ! gs_num_graphs gs = length (gs_x gs)"
    by (simp_all add: wf_graph_state_def)
  from ptr_cover [OF p0, of i "gs_num_graphs gs"] i pn
  obtain g where g: "g < gs_num_graphs gs" "gs_ptr gs ! g \<le> i" "i < gs_ptr gs ! (g + 1)"
    by auto
  from wf g have "gs_batch gs ! i = int g"
    by (simp add: wf_graph_state_def list_all_iff)
  with g show ?thesis by blast
qed

lemma wf_batch_nonneg:
  assumes "wf_graph_state gs"
  shows "list_all (\<lambda>g. 0 \<le> g) (gs_batch gs)"
proof -
  have "0 \<le> gs_batch gs ! i" if "i < length (gs_batch gs)" for i
  proof -
    from that assms have "i < length (gs_x gs)" by (simp add: wf_graph_state_def)
    from wf_batch_cover [OF assms this] show ?thesis by auto
  qed
  then show ?thesis by (simp add: list_all_length)
qed

text \<open>On the example, the clique stage appends the six edges of the first graph.\<close>

theorem conflict_stage_no_self_loop_witness:
  "\<exists>s'. conflict_stage (example_self ''clique'' ''max'' False) example_graph
            (example_locals ''clique'' ''max'') = Inr s'
     \<and> conflict_edges_added (example_locals ''clique'' ''max'') s'
         = [(0, 1), (0, 2), (1, 0), (1, 2), (2, 0), (2, 1)]
     \<and> list_all (\<lambda>(a, b). a \<noteq> b) (conflict_edges_added (example_locals ''clique'' ''max'') s')"
proof -
  define r where "r = conflict_stage (example_self ''clique'' ''max'' False) example_graph
            (example_locals ''clique'' ''max'')"
  have "\<not> isl r" unfolding r_def by code_simp
  then obtain s' where s': "r = Inr s'" by (cases r) auto
  have e: "conflict_edges_added (example_locals ''clique'' ''max'') (projr r)
         = [(0, 1), (0, 2), (1, 0), (1, 2), (2, 0), (2, 1)]"
    unfolding r_def by code_simp
  have h1: "length (fst (gs_edge_index example_graph)) = length (snd (gs_edge_index example_graph))"
    by code_simp
  have h2: "list_all (\<lambda>g. 0 \<le> g) (gs_batch example_graph)"
    by code_simp
  from conflict_stage_no_self_loop [OF h1 h2 example_locals_def s' [unfolded r_def]] e s'
  show ?thesis by (auto simp: r_def)
qed

section \<open>The direction of the pooling edges\<close>

lemma conflict_stage_reverse_adj:
  "conflict_stage (self \<lparr> self_reverse_adj := v \<rparr>) gs s = conflict_stage self gs s"
  by (simp add: conflict_stage_def clique_edges_def conflict_node_def Let_def)

lemma conflict_node_error_cong:
  assumes "conflict_node self gs s = Inl e" and "features s2 = features s"
  shows "conflict_node self gs s2 = Inl e"
  using assms by (simp add: conflict_node_def Let_def split: if_splits)

lemma wf_ptr_le:
  assumes wf: "wf_graph_state gs" and "k \<le> gs_num_graphs gs"
  shows "gs_ptr gs ! k \<le> length (gs_x gs)"
proof -
  from wf have "sorted (gs_ptr gs)" "length (gs_ptr gs) = gs_num_graphs gs + 1"
    "gs_ptr gs ! gs_num_graphs gs = length (gs_x gs)"
    by (simp_all add: wf_graph_state_def)
  with assms(2) sorted_nth_mono [of "gs_ptr gs" k "gs_num_graphs gs"] show ?thesis by simp
qed


lemma highmem_code_ge:
  assumes "clique_highmem M gs feats = Inr new" and "(a, b, c) \<in> set new"
    and t: "take (length (gs_x gs)) feats = gs_x gs"
  shows "3 \<le> c"
proof -
  define machineid where "machineid = map machineid_row (map (machine_block M) (gs_x gs))"
  from assms(1,2) obtain i j where ij: "i < length (gs_x gs)" "j < length (gs_x gs)"
    and c: "c = machineid ! i + 3"
    and m: "machineid ! j = (map (\<lambda>m. if m = - 1 then - 2 else m) machineid) ! i"
    by (auto simp: clique_highmem_def Let_def t machineid_def split: if_splits)
  from ij have "- 1 \<le> machineid ! j" "- 1 \<le> machineid ! i"
    by (simp_all add: machineid_def machineid_row_def)
  with m ij have "0 \<le> machineid ! i"
    by (simp add: machineid_def split: if_splits)
  with c show ?thesis by simp
qed

lemma mediummem_graph_code_ge:
  assumes "(a, b, c) \<in> set (clique_mediummem_graph M gs feats bi)"
    and q: "gs_ptr gs ! (bi + 1) \<le> length feats"
  shows "3 \<le> c"
proof -
  define p where "p = gs_ptr gs ! bi"
  define n where "n = gs_ptr gs ! (bi + 1) - p"
  define machineid where
    "machineid = map (\<lambda>r. machineid_row (machine_block M r)) (take n (drop p feats))"
  from q have len: "length machineid = n"
    by (simp add: machineid_def n_def)
  from assms(1) obtain i j where ij: "i < n" "j < n"
    and c: "c = machineid ! i + 3"
    and m: "machineid ! j = (map (\<lambda>m. if m = - 1 then - 2 else m) machineid) ! i"
    by (auto simp: clique_mediummem_graph_def Let_def machineid_def n_def p_def)
  from ij len have "- 1 \<le> machineid ! j" "- 1 \<le> machineid ! i"
    by (simp_all add: machineid_def machineid_row_def)
  with m ij len have "0 \<le> machineid ! i"
    by (simp split: if_splits)
  with c show ?thesis by simp
qed

lemma mediummem_code_ge:
  assumes "clique_mediummem M gs feats = Inr new" and "(a, b, c) \<in> set new"
    and wf: "wf_graph_state gs" and l: "length (gs_x gs) \<le> length feats"
  shows "3 \<le> c"
proof -
  from assms(1) have "new = concat (map (clique_mediummem_graph M gs feats) [0 ..< gs_num_graphs gs])"
    by (simp add: clique_mediummem_def foldl_append_concat split: if_splits)
  with assms(2) obtain bi where bi: "bi < gs_num_graphs gs"
    and m: "(a, b, c) \<in> set (clique_mediummem_graph M gs feats bi)"
    by auto
  from wf_ptr_le [OF wf, of "bi + 1"] bi l have "gs_ptr gs ! (bi + 1) \<le> length feats"
    by simp
  with m show ?thesis by (rule mediummem_graph_code_ge)
qed

lemma exhaustive_pair_code_ge:
  assumes "(a, b, c) \<in> set (exhaustive_pair mc aff ni1 ni2)"
  shows "3 \<le> c"
  using assms by (auto simp: exhaustive_pair_def Let_def split: if_splits)

lemma exhaustive_code_ge:
  assumes "clique_exhaustive M gs feats = Inr new" and "(a, b, c) \<in> set new"
  shows "3 \<le> c"
proof -
  define mc where "mc = map (machine_block M) (take (length (gs_x gs)) feats)"
  define aff where "aff = map (\<lambda>r. r ! 0) (take (length (gs_x gs)) feats)"
  from assms(1) have "new = concat (map (\<lambda>bi.
       concat (map (exhaustive_node mc aff (gs_ptr gs ! (bi + 1)))
                 [gs_ptr gs ! bi ..< gs_ptr gs ! (bi + 1)])) [0 ..< gs_num_graphs gs])"
    by (simp add: clique_exhaustive_def Let_def mc_def aff_def split: if_splits)
  with assms(2) obtain hi ni1 where "(a, b, c) \<in> set (exhaustive_node mc aff hi ni1)"
    by auto
  then obtain ni2 where "(a, b, c) \<in> set (exhaustive_pair mc aff ni1 ni2)"
    by (auto simp: exhaustive_node_def split: if_splits)
  then show ?thesis by (rule exhaustive_pair_code_ge)
qed

lemma clique_edges_code_ge:
  assumes "clique_edges self gs feats = Inr new" and "(a, b, c) \<in> set new"
    and wf: "wf_graph_state gs" and t: "take (length (gs_x gs)) feats = gs_x gs"
  shows "3 \<le> c"
proof -
  from t have l: "length (gs_x gs) \<le> length feats"
    by (metis length_take min.cobounded1)
  show ?thesis
  proof (cases "self_highmem_conflict_clique self")
    case True
    with assms(1,2) t show ?thesis by (simp add: clique_edges_def highmem_code_ge)
  next
    case False
    show ?thesis
    proof (cases "self_mediummem_conflict_clique self")
      case True
      with False assms(1,2) wf l show ?thesis by (simp add: clique_edges_def mediummem_code_ge)
    next
      case m: False
      with False assms(1,2) show ?thesis by (simp add: clique_edges_def exhaustive_code_ge)
    qed
  qed
qed

text \<open>
  The conflict stage reads the features and the node offset only: from two states that
  agree on them it fails with the same error, or appends the same edges and codes, none
  of them the pooling code.
\<close>

lemma conflict_stage_appends:
  assumes wf: "wf_graph_state gs"
    and t: "take (length (gs_x gs)) (features s1) = gs_x gs"
    and f: "features s2 = features s1" and n: "node_offset s2 = node_offset s1"
  shows "(\<exists>e. conflict_stage self gs s1 = Inl e \<and> conflict_stage self gs s2 = Inl e)
       \<or> (\<exists>s1' s2' A B C.
            conflict_stage self gs s1 = Inr s1' \<and> conflict_stage self gs s2 = Inr s2'
            \<and> edge_index_0 s1' = edge_index_0 s1 @ A \<and> edge_index_1 s1' = edge_index_1 s1 @ B
            \<and> edge_codes s1' = edge_codes s1 @ C
            \<and> edge_index_0 s2' = edge_index_0 s2 @ A \<and> edge_index_1 s2' = edge_index_1 s2 @ B
            \<and> edge_codes s2' = edge_codes s2 @ C
            \<and> length A = length B \<and> length B = length C \<and> 2 \<notin> set C)"
proof -
  consider (clique) "self_conflicts self = ''clique''"
    | (node) "self_conflicts self \<noteq> ''clique''" "self_conflicts self = ''node''"
    | (none) "self_conflicts self \<noteq> ''clique''" "self_conflicts self \<noteq> ''node''"
    by blast
  then show ?thesis
  proof cases
    case clique
    show ?thesis
    proof (cases "clique_edges self gs (features s1)")
      case (Inl e)
      with clique f show ?thesis by (simp add: conflict_stage_def)
    next
      case (Inr new)
      have "2 \<notin> set (map (\<lambda>e. snd (snd e)) new)"
      proof
        assume "2 \<in> set (map (\<lambda>e. snd (snd e)) new)"
        then obtain a b where "(a, b, 2) \<in> set new" by auto
        from clique_edges_code_ge [OF Inr this wf t] show False by simp
      qed
      with clique f Inr show ?thesis
        by (simp add: conflict_stage_def append_edges_def)
    qed
  next
    case node
    show ?thesis
    proof (cases "conflict_node self gs s1")
      case (Inl e)
      from conflict_node_error_cong [OF Inl f] Inl node show ?thesis
        by (simp add: conflict_stage_def)
    next
      case (Inr s1')
      have "\<exists>s2'. conflict_node self gs s2 = Inr s2'"
      proof (cases "conflict_node self gs s2")
        case (Inl e)
        from conflict_node_error_cong [OF Inl f [symmetric]] Inr show ?thesis by simp
      next
        case r: (Inr s2')
        then show ?thesis by blast
      qed
      then obtain s2' where r2: "conflict_node self gs s2 = Inr s2'" by blast
      from t f have t2: "take (length (gs_x gs)) (features s2) = gs_x gs" by simp
      define M where "M = self_max_n_machines self"
      define mid where "mid i = machineid_row (machine_block M (gs_x gs ! i))" for i
      define idx where "idx = filter (\<lambda>i. mid i \<noteq> - 1) [0 ..< length (gs_x gs)]"
      define hub where "hub i = gs_batch gs ! i * int M + mid i + int (node_offset s1)" for i
      note res1 = conflict_node_result [OF Inr t, folded M_def, folded mid_def, folded idx_def,
          folded hub_def]
      note res2 = conflict_node_result [OF r2 t2, unfolded n, folded M_def, folded mid_def,
          folded idx_def, folded hub_def]
      have "0 \<le> mid i" if "i \<in> set idx" for i
        using that machineid_row_nonneg [of "machine_block M (gs_x gs ! i)"]
        by (simp add: idx_def mid_def)
      then have "2 \<notin> set (map (\<lambda>i. mid i + 3) idx @ map (\<lambda>i. mid i + 3 + int M) idx)"
        by fastforce
      with node Inr r2 res1(1,2,3) res2(1,2,3) show ?thesis
        by (simp add: conflict_stage_def)
    qed
  next
    case none
    then show ?thesis by (simp add: conflict_stage_def)
  qed
qed

lemma initial_locals_reverse_adj:
  "initial_locals (self \<lparr> self_reverse_adj := v \<rparr>) gs = initial_locals self gs"
  by (simp add: initial_locals_def)

lemma filter_code_none:
  assumes "k \<notin> set cs"
  shows "filter (\<lambda>ec. snd ec = k) (zip es cs) = []"
  using assms by (auto simp: filter_empty_conv dest: set_zip_rightD)

lemma filter_code_all:
  assumes "set cs \<subseteq> {k}"
  shows "filter (\<lambda>ec. snd ec = k) (zip es cs) = zip es cs"
  using assms by (auto simp: filter_id_conv dest: set_zip_rightD)

lemma filter_not_code_all:
  assumes "k \<notin> set cs"
  shows "filter (\<lambda>ec. snd ec \<noteq> k) (zip es cs) = zip es cs"
  using assms by (auto simp: filter_id_conv dest: set_zip_rightD)

lemma filter_not_code_none:
  assumes "set cs \<subseteq> {k}"
  shows "filter (\<lambda>ec. snd ec \<noteq> k) (zip es cs) = []"
  using assms by (auto simp: filter_empty_conv dest: set_zip_rightD)

text \<open>The edge lists of a state built in three blocks: found, pooling, conflict.\<close>

lemma three_blocks:
  assumes e: "edge_index_0 s = (E0 @ P0) @ A" "edge_index_1 s = (E1 @ P1) @ B"
    and c: "edge_codes s = (replicate (length E0) 1 @ replicate (length P0) 2) @ C"
    and l: "length E0 = length E1" "length P0 = length P1" "length A = length B"
      "length B = length C"
    and n: "2 \<notin> set C"
  shows "pooling_edges s = zip P0 P1" and "other_edges s = zip E0 E1 @ zip A B"
proof -
  have z: "zip (zip (edge_index_0 s) (edge_index_1 s)) (edge_codes s)
         = zip (zip E0 E1) (replicate (length E0) 1)
           @ zip (zip P0 P1) (replicate (length P0) 2)
           @ zip (zip A B) C"
    using l by (simp add: e c)
  have n1: "(2::int) \<notin> set (replicate (length E0) 1)" by simp
  have a2: "set (replicate (length P0) (2::int)) \<subseteq> {2}" by auto
  show "pooling_edges s = zip P0 P1"
    unfolding pooling_edges_def z filter_append
      filter_code_none [OF n1] filter_code_none [OF n] filter_code_all [OF a2]
    using l by (simp add: map_fst_zip)
  show "other_edges s = zip E0 E1 @ zip A B"
    unfolding other_edges_def z filter_append
      filter_not_code_all [OF n1] filter_not_code_all [OF n] filter_not_code_none [OF a2]
    using l by (simp add: map_fst_zip)
qed

lemma pool_ei1_bound:
  assumes wf: "wf_graph_state gs" and "a \<in> set (pool_ei1 gs)"
  shows "0 \<le> a \<and> a < int (length (gs_x gs))"
proof -
  from assms(2) obtain i k where i: "i < gs_num_graphs gs"
    and k: "k < gs_ptr gs ! (i + 1)" and a: "a = int k"
    by (auto simp: pool_ei1_def)
  from wf_ptr_le [OF wf, of "i + 1"] i have "gs_ptr gs ! (i + 1) \<le> length (gs_x gs)" by simp
  with k a show ?thesis by simp
qed

lemma pool_ei0_bound:
  assumes "b \<in> set (pool_ei0 gs off)"
  shows "int off \<le> b"
  using assms by (auto simp: pool_ei0_def)

lemma swap_zip: "map (\<lambda>(a, b). (b, a)) (zip xs ys) = zip ys xs"
  by (induction xs ys rule: list_induct2') auto

text \<open>
  C10. With pooling mode \<open>''learn''\<close> the augmentation, run with \<open>reverse_adj\<close> set and
  unset, fails with the same error or ends in two states with the same pooling edges: in
  both, every pooling edge has a real node in row 0 and the virtual node of its graph in
  row 1, and every other edge of one run is the reversed edge of the other run.
\<close>

theorem pooling_edges_reverse_adj:
  assumes gp: "self_graph_pooling self = ''learn''" and wf: "wf_graph_state gs"
  shows "(\<exists>e. augment (self \<lparr> self_reverse_adj := True \<rparr>) gs = Inl e
             \<and> augment (self \<lparr> self_reverse_adj := False \<rparr>) gs = Inl e)
       \<or> (\<exists>sT sF. augment (self \<lparr> self_reverse_adj := True \<rparr>) gs = Inr sT
             \<and> augment (self \<lparr> self_reverse_adj := False \<rparr>) gs = Inr sF
             \<and> pooling_edges sT = pooling_edges sF
             \<and> pooling_edges sT = zip (pool_ei1 gs) (pool_ei0 gs (length (gs_x gs)))
             \<and> list_all (\<lambda>(a, b). 0 \<le> a \<and> a < int (length (gs_x gs))
                                    \<and> int (length (gs_x gs)) \<le> b) (pooling_edges sT)
             \<and> other_edges sF = map (\<lambda>(a, b). (b, a)) (other_edges sT))"
proof -
  define s0 where "s0 = initial_locals self gs"
  define pT where "pT = pooling_stage (self \<lparr> self_reverse_adj := True \<rparr>) gs s0"
  define pF where "pF = pooling_stage (self \<lparr> self_reverse_adj := False \<rparr>) gs s0"
  define E0 where "E0 = fst (gs_edge_index gs)"
  define E1 where "E1 = snd (gs_edge_index gs)"
  define P0 where "P0 = pool_ei0 gs (length (gs_x gs))"
  define P1 where "P1 = pool_ei1 gs"
  from wf have lE: "length E0 = length E1"
    by (simp add: wf_graph_state_def E0_def E1_def)
  have lP: "length P0 = length P1"
    unfolding P0_def P1_def by (rule length_pool_ei)
  have augT: "augment (self \<lparr> self_reverse_adj := True \<rparr>) gs
                = (case conflict_stage self gs pT of Inl e \<Rightarrow> Inl e | Inr s \<Rightarrow> Inr s)"
    by (simp add: augment_def conflict_stage_reverse_adj initial_locals_reverse_adj
          pT_def s0_def reverse_stage_def cong: sum.case_cong)
  have augF: "augment (self \<lparr> self_reverse_adj := False \<rparr>) gs
                = (case conflict_stage self gs pF of Inl e \<Rightarrow> Inl e
                   | Inr s \<Rightarrow> Inr (s \<lparr> edge_index_0 := edge_index_1 s,
                                         edge_index_1 := edge_index_0 s \<rparr>))"
    by (simp add: augment_def conflict_stage_reverse_adj initial_locals_reverse_adj
          pF_def s0_def reverse_stage_def cong: sum.case_cong)
  have pT: "edge_index_0 pT = E0 @ P1" "edge_index_1 pT = E1 @ P0"
    "edge_codes pT = replicate (length E0) 1 @ replicate (length P0) 2"
    using gp by (simp_all add: pT_def s0_def pooling_stage_def initial_locals_def Let_def
        E0_def E1_def P0_def P1_def)
  have pF: "edge_index_0 pF = E0 @ P0" "edge_index_1 pF = E1 @ P1"
    "edge_codes pF = replicate (length E0) 1 @ replicate (length P0) 2"
    using gp by (simp_all add: pF_def s0_def pooling_stage_def initial_locals_def Let_def
        E0_def E1_def P0_def P1_def)
  have t: "take (length (gs_x gs)) (features pT) = gs_x gs"
    by (simp add: pT_def s0_def pooling_stage_def initial_locals_def Let_def)
  have f: "features pF = features pT" and n: "node_offset pF = node_offset pT"
    by (simp_all add: pT_def pF_def pooling_stage_def Let_def)
  from conflict_stage_appends [OF wf t f n, of self]
  show ?thesis
  proof (elim disjE exE conjE)
    fix e assume "conflict_stage self gs pT = Inl e" "conflict_stage self gs pF = Inl e"
    then show ?thesis by (simp add: augT augF)
  next
    fix cT cF A B C
    assume cT: "conflict_stage self gs pT = Inr cT" and cF: "conflict_stage self gs pF = Inr cF"
      and eT: "edge_index_0 cT = edge_index_0 pT @ A" "edge_index_1 cT = edge_index_1 pT @ B"
        "edge_codes cT = edge_codes pT @ C"
      and eF: "edge_index_0 cF = edge_index_0 pF @ A" "edge_index_1 cF = edge_index_1 pF @ B"
        "edge_codes cF = edge_codes pF @ C"
      and l: "length A = length B" "length B = length C" and n2: "2 \<notin> set C"
    define sF where "sF = cF \<lparr> edge_index_0 := edge_index_1 cF, edge_index_1 := edge_index_0 cF \<rparr>"
    have T0: "edge_index_0 cT = (E0 @ P1) @ A" and T1: "edge_index_1 cT = (E1 @ P0) @ B"
      and Tc: "edge_codes cT = (replicate (length E0) 1 @ replicate (length P1) 2) @ C"
      by (simp_all add: eT pT lP)
    have F0: "edge_index_0 sF = (E1 @ P1) @ B" and F1: "edge_index_1 sF = (E0 @ P0) @ A"
      and Fc: "edge_codes sF = (replicate (length E1) 1 @ replicate (length P1) 2) @ C"
      by (simp_all add: sF_def eF pF lP lE)
    note bT = three_blocks [OF T0 T1 Tc lE lP [symmetric] l n2]
    note bF = three_blocks [OF F0 F1 Fc lE [symmetric] lP [symmetric] l(1) [symmetric] _ n2]
    have bound: "list_all (\<lambda>(a, b). 0 \<le> a \<and> a < int (length (gs_x gs))
                                    \<and> int (length (gs_x gs)) \<le> b) (zip P1 P0)"
      unfolding list_all_iff
    proof (clarify, intro conjI)
      fix a b assume "(a, b) \<in> set (zip P1 P0)"
      then have a: "a \<in> set (pool_ei1 gs)" and b: "b \<in> set (pool_ei0 gs (length (gs_x gs)))"
        by (auto simp: P0_def P1_def dest: set_zip_leftD set_zip_rightD)
      from pool_ei1_bound [OF wf a] show "0 \<le> a" "a < int (length (gs_x gs))" by simp_all
      from pool_ei0_bound [OF b] show "int (length (gs_x gs)) \<le> b" .
    qed
    have lBA: "length A = length C" using l by simp
    have sw: "other_edges sF = map (\<lambda>(a, b). (b, a)) (other_edges cT)"
      by (simp add: bT(2) bF(2) [OF lBA] swap_zip)
    have "augment (self \<lparr> self_reverse_adj := True \<rparr>) gs = Inr cT"
      "augment (self \<lparr> self_reverse_adj := False \<rparr>) gs = Inr sF"
      by (simp_all add: augT augF cT cF sF_def)
    moreover have "pooling_edges cT = pooling_edges sF"
      by (simp add: bT(1) bF(1) [OF lBA])
    moreover have "pooling_edges cT = zip (pool_ei1 gs) (pool_ei0 gs (length (gs_x gs)))"
      by (simp add: bT(1) P0_def P1_def)
    moreover have "list_all (\<lambda>(a, b). 0 \<le> a \<and> a < int (length (gs_x gs))
                                    \<and> int (length (gs_x gs)) \<le> b) (pooling_edges cT)"
      using bound by (simp add: bT(1))
    ultimately show ?thesis using sw by blast
  qed
qed

text \<open>On the example both runs link the nodes 0, 1, 2 to node 5 and the nodes 3, 4 to node 6.\<close>

theorem pooling_edges_reverse_adj_witness:
  "\<exists>sT sF. augment (example_self ''clique'' ''learn'' True) example_graph = Inr sT
      \<and> augment (example_self ''clique'' ''learn'' False) example_graph = Inr sF
      \<and> pooling_edges sT = [(0, 5), (1, 5), (2, 5), (3, 6), (4, 6)]
      \<and> pooling_edges sF = [(0, 5), (1, 5), (2, 5), (3, 6), (4, 6)]
      \<and> other_edges sF = map (\<lambda>(a, b). (b, a)) (other_edges sT)"
proof -
  have gp: "self_graph_pooling (example_self ''clique'' ''learn'' True) = ''learn''"
    by (simp add: example_self_def)
  have wf: "wf_graph_state example_graph" by code_simp
  have uT: "(example_self ''clique'' ''learn'' True) \<lparr> self_reverse_adj := True \<rparr>
              = example_self ''clique'' ''learn'' True"
    and uF: "(example_self ''clique'' ''learn'' True) \<lparr> self_reverse_adj := False \<rparr>
              = example_self ''clique'' ''learn'' False"
    by (simp_all add: example_self_def)
  have ok: "\<not> isl (augment (example_self ''clique'' ''learn'' True) example_graph)"
    by code_simp
  have v: "zip (pool_ei1 example_graph) (pool_ei0 example_graph (length (gs_x example_graph)))
             = [(0, 5), (1, 5), (2, 5), (3, 6), (4, 6)]"
    by code_simp
  from pooling_edges_reverse_adj [OF gp wf, unfolded uT uF] ok v
  show ?thesis by auto
qed

section \<open>Clique conflicts: the three strategies agree\<close>
















section \<open>Readout: results\<close>

lemma map_cong_all2:
  assumes "list_all2 (\<lambda>g g'. f g' = f g) xs ys"
  shows "map f ys = map f xs"
  using assms by (induction xs ys rule: list_all2_induct) auto

lemma pool_max_perm:
  assumes "list_all2 (\<lambda>g g'. mset g' = mset g) nf nf'"
  shows "pool_max K nf' = pool_max K nf"
  unfolding pool_max_def
proof (rule map_cong_all2, rule list_all2_mono [OF assms])
  fix g g' :: "real list list" assume "mset g' = mset g"
  then have "set g' = set g" by (rule mset_eq_setD)
  then show "map (\<lambda>k. Max (set (map (\<lambda>r. r ! k) g'))) [0 ..< K]
           = map (\<lambda>k. Max (set (map (\<lambda>r. r ! k) g))) [0 ..< K]"
    by simp
qed

lemma clique_edges_error:
  "clique_edges self gs feats = Inl e \<Longrightarrow> e = IndexError \<or> e = RuntimeError"
  by (auto simp: clique_edges_def clique_highmem_def clique_mediummem_def clique_exhaustive_def
        Let_def split: if_splits)

lemma conflict_node_error:
  "conflict_node self gs s = Inl e \<Longrightarrow> e = IndexError"
  by (auto simp: conflict_node_def Let_def split: if_splits)

lemma augment_error:
  assumes "augment self gs = Inl e"
  shows "e = IndexError \<or> e = RuntimeError"
proof -
  define s where "s = pooling_stage self gs (initial_locals self gs)"
  from assms have c: "conflict_stage self gs s = Inl e"
    by (simp add: augment_def s_def split: sum.splits)
  show ?thesis
  proof (cases "self_conflicts self = ''clique''")
    case True
    with c have "clique_edges self gs (features s) = Inl e"
      by (simp add: conflict_stage_def split: sum.splits)
    then show ?thesis by (rule clique_edges_error)
  next
    case False
    with c have "conflict_node self gs s = Inl e"
      by (simp add: conflict_stage_def split: if_splits)
    then show ?thesis by (simp add: conflict_node_error)
  qed
qed

lemma layer_step_error:
  "layer_step self m s layer st = Inl e \<Longrightarrow> e = RuntimeError"
  by (auto simp: layer_step_def iadd_def alloc_def Let_def split: if_splits sum.splits prod.splits)

lemma run_layers_error:
  "run_layers self m s ls st = Inl e \<Longrightarrow> e = RuntimeError"
proof (induction ls arbitrary: st)
  case Nil
  then show ?case by simp
next
  case (Cons l ls)
  then show ?case
    by (auto split: sum.splits dest: layer_step_error)
qed

lemma message_passing_error:
  "message_passing self m s = Inl e \<Longrightarrow> e = RuntimeError"
  by (auto simp: message_passing_def split: sum.splits dest: run_layers_error)

lemma cat_axis1_error: "cat_axis1 ts = Inl e \<Longrightarrow> e = RuntimeError"
  by (auto simp: cat_axis1_def split: if_splits)

lemma reshape3_error: "reshape3 b n t = Inl e \<Longrightarrow> e = RuntimeError"
  by (auto simp: reshape3_def Let_def split: if_splits)

lemma expand_cat_error: "expand_cat K K' n nf ge = Inl e \<Longrightarrow> e = RuntimeError"
  by (auto simp: expand_cat_def split: if_splits)

lemma graph_embedding_accepted:
  assumes "self_graph_pooling self \<in> {''max'', ''avg'', ''learn''}"
  shows "\<exists>emb. graph_embedding self obs feats K nf = Inr emb"
  using assms by (auto simp: graph_embedding_def Let_def)

lemma graph_embedding_rejected:
  assumes "self_graph_pooling self \<notin> {''max'', ''avg'', ''learn''}"
  shows "graph_embedding self obs feats K nf = Inl (pooling_not_recognized (self_graph_pooling self))"
  using assms by (simp add: graph_embedding_def Let_def)

lemma readout_accepted_error:
  assumes a: "self_graph_pooling self \<in> {''max'', ''avg'', ''learn''}"
    and r: "readout self obs feats = Inl e"
  shows "e = RuntimeError"
proof -
  define rows where "rows = take (length (gs_x (to_graph obs))) feats"
  define K where "K = inferred_dim (get_batch_size obs) (get_n_nodes obs) rows"
  show ?thesis
  proof (cases "reshape3 (get_batch_size obs) (get_n_nodes obs) rows")
    case (Inl e')
    with r have "e = e'" by (simp add: readout_def Let_def rows_def)
    with Inl show ?thesis by (simp add: reshape3_error)
  next
    case (Inr nf)
    from graph_embedding_accepted [OF a] obtain emb
      where emb: "graph_embedding self obs feats K nf = Inr emb" by blast
    show ?thesis
    proof (cases "reshape3 (get_batch_size obs) 1 emb")
      case (Inl e')
      with r Inr emb have "e = e'" by (simp add: readout_def Let_def rows_def K_def)
      with Inl show ?thesis by (simp add: reshape3_error)
    next
      case ge: (Inr ge)
      with r Inr emb have "expand_cat K (inferred_dim (get_batch_size obs) 1 emb)
                             (get_n_nodes obs) nf ge = Inl e"
        by (simp add: readout_def Let_def rows_def K_def)
      then show ?thesis by (rule expand_cat_error)
    qed
  qed
qed

lemma readout_rejected:
  assumes a: "self_graph_pooling self \<notin> {''max'', ''avg'', ''learn''}"
  shows "readout self obs feats = Inl RuntimeError
       \<or> readout self obs feats = Inl (pooling_not_recognized (self_graph_pooling self))"
    and "reshape3 (get_batch_size obs) (get_n_nodes obs)
           (take (length (gs_x (to_graph obs))) feats) = Inr nf
         \<Longrightarrow> readout self obs feats = Inl (pooling_not_recognized (self_graph_pooling self))"
proof -
  show "reshape3 (get_batch_size obs) (get_n_nodes obs)
           (take (length (gs_x (to_graph obs))) feats) = Inr nf
         \<Longrightarrow> readout self obs feats = Inl (pooling_not_recognized (self_graph_pooling self))"
    by (simp add: readout_def Let_def graph_embedding_rejected [OF a])
  show "readout self obs feats = Inl RuntimeError
       \<or> readout self obs feats = Inl (pooling_not_recognized (self_graph_pooling self))"
    by (auto simp: readout_def Let_def graph_embedding_rejected [OF a] split: sum.splits
          dest: reshape3_error)
qed

text \<open>
  C9, amended to the modes that the code tests. With a pooling mode other than
  \<open>''max''\<close>, \<open>''avg''\<close> and \<open>''learn''\<close>, \<open>forward\<close>
  never returns a tensor: it ends in an error, and when the stages before the choice of
  the pooling succeed, the error is the exception of line 445 that names the mode. With
  one of the three modes \<open>forward\<close> raises no exception of this kind.
\<close>

theorem forward_pooling_mode:
  shows "(self_graph_pooling self \<notin> {''max'', ''avg'', ''learn''}
            \<longrightarrow> (\<exists>e. forward self m obs = Inl e))
       \<and> (self_graph_pooling self \<notin> {''max'', ''avg'', ''learn''}
            \<and> augment self (to_graph obs) = Inr s \<and> message_passing self m s = Inr fl
            \<and> cat_axis1 fl = Inr feats
            \<and> reshape3 (get_batch_size obs) (get_n_nodes obs)
                 (take (length (gs_x (to_graph obs))) feats) = Inr nf
            \<longrightarrow> forward self m obs = Inl (pooling_not_recognized (self_graph_pooling self)))
       \<and> (self_graph_pooling self \<in> {''max'', ''avg'', ''learn''}
            \<longrightarrow> (\<forall>msg. forward self m obs \<noteq> Inl (Exception msg)))"
proof (intro conjI impI allI)
  assume a: "self_graph_pooling self \<notin> {''max'', ''avg'', ''learn''}"
  show "\<exists>e. forward self m obs = Inl e"
    using readout_rejected(1) [OF a]
    by (auto simp: forward_def split: sum.splits)
next
  assume "self_graph_pooling self \<notin> {''max'', ''avg'', ''learn''}
            \<and> augment self (to_graph obs) = Inr s \<and> message_passing self m s = Inr fl
            \<and> cat_axis1 fl = Inr feats
            \<and> reshape3 (get_batch_size obs) (get_n_nodes obs)
                 (take (length (gs_x (to_graph obs))) feats) = Inr nf"
  then show "forward self m obs = Inl (pooling_not_recognized (self_graph_pooling self))"
    using readout_rejected(2) [of self obs feats nf]
    by (simp add: forward_def)
next
  fix msg
  assume a: "self_graph_pooling self \<in> {''max'', ''avg'', ''learn''}"
  show "forward self m obs \<noteq> Inl (Exception msg)"
  proof
    assume f: "forward self m obs = Inl (Exception msg)"
    then consider "augment self (to_graph obs) = Inl (Exception msg)"
      | s where "message_passing self m s = Inl (Exception msg)"
      | fl where "cat_axis1 fl = Inl (Exception msg)"
      | feats where "readout self obs feats = Inl (Exception msg)"
      by (auto simp: forward_def split: sum.splits)
    then show False
    proof cases
      case 1 then show ?thesis by (auto dest: augment_error)
    next
      case 2 then show ?thesis by (auto dest: message_passing_error)
    next
      case 3 then show ?thesis by (auto dest: cat_axis1_error)
    next
      case 4 then show ?thesis using readout_accepted_error [OF a] by auto
    qed
  qed
qed

text \<open>
  On the example the mode \<open>''median''\<close> ends in the exception that names it, and the
  mode \<open>''max''\<close> returns a tensor.
\<close>

theorem forward_pooling_mode_witness:
  "(\<exists>e. forward (example_self ''att'' ''median'' False) example_modules example_obs = Inl e)
   \<and> forward (example_self ''att'' ''median'' False) example_modules example_obs
       = Inl (pooling_not_recognized ''median'')
   \<and> (\<forall>msg. forward (example_self ''att'' ''max'' False) example_modules example_obs
          \<noteq> Inl (Exception msg))
   \<and> \<not> isl (forward (example_self ''att'' ''max'' False) example_modules example_obs)"
proof -
  have b: "self_graph_pooling (example_self ''att'' ''median'' False) \<notin> {''max'', ''avg'', ''learn''}"
    by (simp add: example_self_def)
  have g: "self_graph_pooling (example_self ''att'' ''max'' False) \<in> {''max'', ''avg'', ''learn''}"
    by (simp add: example_self_def)
  have v: "forward (example_self ''att'' ''median'' False) example_modules example_obs
             = Inl (pooling_not_recognized ''median'')"
    by code_simp
  have r: "\<not> isl (forward (example_self ''att'' ''max'' False) example_modules example_obs)"
    by code_simp
  from forward_pooling_mode [of "example_self ''att'' ''median'' False" example_modules example_obs]
    forward_pooling_mode [of "example_self ''att'' ''max'' False" example_modules example_obs]
    b g v r
  show ?thesis by blast
qed

section \<open>Message passing: results\<close>

lemma entries_last:
  assumes "aliased st"
  shows "heap st ! features_ref st = last (entries st)" and "entries st \<noteq> []"
  using assms by (simp_all add: aliased_def entries_def last_map)

lemma layer_step_residual:
  assumes res: "self_residual self" and nn: "\<not> self_normalize self"
    and inv: "aliased st"
    and step: "layer_step self m s layer st = Inr st'"
  shows "aliased st'"
    and "entries st' = entries st
           @ [tensor_add (layer_output self m s layer (last (entries st))) (last (entries st))]"
proof -
  define prev where "prev = heap st ! features_ref st"
  define out where "out = layer_output self m s layer prev"
  define r1 where "r1 = length (heap st)"
  define fl where "fl = features_list st @ [r1]"
  from inv have ne: "features_list st \<noteq> []" and fr: "features_ref st = last (features_list st)"
    and lt: "\<forall>r\<in>set (features_list st). r < length (heap st)"
    by (simp_all add: aliased_def list_all_iff)
  have i2: "fl ! (length (features_list st) - Suc 0) = features_ref st"
    using ne by (simp add: fl_def fr last_conv_nth nth_append)
  from fr ne lt have frl: "features_ref st < length (heap st)" by simp
  have rd: "(heap st @ [out]) ! features_ref st = prev" "(heap st @ [out]) ! r1 = out"
    using frl by (simp_all add: nth_append prev_def r1_def)
  from step res nn have st': "same_shape out prev"
    "st' = \<lparr> heap = (heap st @ [out]) [r1 := tensor_add out prev],
            features_ref = r1, features_list = fl \<rparr>"
    unfolding layer_step_def alloc_def Let_def prev_def [symmetric] out_def [symmetric]
      r1_def [symmetric]
    by (simp_all add: fl_def [symmetric] i2 iadd_def rd split: if_splits)
  have h': "heap st' = heap st @ [tensor_add out prev]"
    by (simp add: st' r1_def)
  show "aliased st'"
    using lt by (auto simp: aliased_def st' fl_def r1_def list_all_iff)
  have old: "map (\<lambda>r. heap st' ! r) (features_list st) = entries st"
    unfolding entries_def h' using lt by (simp add: nth_append)
  have "entries st' = entries st @ [tensor_add out prev]"
    unfolding entries_def [of st'] using old
    by (simp add: st'(2) fl_def r1_def)
  moreover from entries_last(1) [OF inv] have "prev = last (entries st)" by (simp add: prev_def)
  ultimately show "entries st' = entries st
           @ [tensor_add (layer_output self m s layer (last (entries st))) (last (entries st))]"
    by (simp add: out_def)
qed

lemma run_layers_residual:
  assumes res: "self_residual self" and nn: "\<not> self_normalize self"
  shows "aliased st \<Longrightarrow> run_layers self m s ls st = Inr st' \<Longrightarrow>
     aliased st' \<and> length (entries st') = length (entries st) + length ls
     \<and> take (length (entries st)) (entries st') = entries st
     \<and> (\<forall>k<length ls.
          entries st' ! (length (entries st) + k)
            = tensor_add (layer_output self m s (ls ! k)
                            (entries st' ! (length (entries st) + k - 1)))
                (entries st' ! (length (entries st) + k - 1)))"
proof (induction ls arbitrary: st)
  case Nil
  then show ?case by simp
next
  case (Cons l ls)
  from Cons.prems(2) obtain st1 where s1: "layer_step self m s l st = Inr st1"
    and r: "run_layers self m s ls st1 = Inr st'"
    by (auto split: sum.splits)
  define n where "n = length (entries st)"
  define v where "v = tensor_add (layer_output self m s l (last (entries st))) (last (entries st))"
  note ls = layer_step_residual [OF res nn Cons.prems(1) s1]
  have e1: "entries st1 = entries st @ [v]" using ls(2) by (simp add: v_def)
  from Cons.IH [OF ls(1) r] have a: "aliased st'"
    and len: "length (entries st') = length (entries st1) + length ls"
    and tk: "take (length (entries st1)) (entries st') = entries st1"
    and ih: "\<forall>k<length ls. entries st' ! (length (entries st1) + k)
            = tensor_add (layer_output self m s (ls ! k)
                            (entries st' ! (length (entries st1) + k - 1)))
                (entries st' ! (length (entries st1) + k - 1))"
    by simp_all
  have l1: "length (entries st1) = Suc n" by (simp add: e1 n_def)
  have pre: "entries st' ! j = entries st1 ! j" if "j < Suc n" for j
    using that tk l1 by (metis nth_take)
  from entries_last(2) [OF Cons.prems(1)] have npos: "0 < n" by (simp add: n_def)
  have tk0: "take n (entries st') = entries st"
  proof -
    have "take n (take (Suc n) (entries st')) = take n (entries st1)"
      using tk l1 by simp
    then show ?thesis by (simp add: e1 n_def min_def)
  qed
  have lastv: "last (entries st) = entries st' ! (n - 1)"
  proof -
    from npos have "n - 1 < Suc n" by simp
    from pre [OF this] npos show ?thesis
      by (simp add: e1 nth_append n_def last_conv_nth entries_last(2) [OF Cons.prems(1)])
  qed
  have k0: "entries st' ! n = v"
    using pre [of n] by (simp add: e1 n_def)
  have step: "entries st' ! (n + k)
            = tensor_add (layer_output self m s ((l # ls) ! k) (entries st' ! (n + k - 1)))
                (entries st' ! (n + k - 1))" if "k < length (l # ls)" for k
  proof (cases k)
    case 0
    then show ?thesis by (simp add: k0 v_def lastv)
  next
    case (Suc k')
    with that have "k' < length ls" by simp
    with ih l1 have "entries st' ! (Suc n + k')
            = tensor_add (layer_output self m s (ls ! k') (entries st' ! (Suc n + k' - 1)))
                (entries st' ! (Suc n + k' - 1))"
      by simp
    with Suc show ?thesis by simp
  qed
  from a len l1 tk0 step show ?case
    unfolding n_def [symmetric] by simp
qed

lemma mp_init_aliased:
  shows "aliased (mp_init self m s)" and "length (entries (mp_init self m s)) = 2"
  by (simp_all add: mp_init_def alloc_def Let_def aliased_def entries_def)

text \<open>
  C5. With the residual connection and without normalization, the tensor recorded for
  layer \<open>i\<close> at position \<open>i + 2\<close> of the embedding list is what the layer computes from
  the tensor recorded before it (the convolution, then the configured \<open>elu\<close> and the
  attention head) plus that tensor, entry by entry.
\<close>

theorem residual_layer_entry:
  assumes "self_residual self" and "\<not> self_normalize self"
    and "message_passing self m s = Inr fl"
    and "i < self_n_layers_features_extractor self"
  shows "length fl = self_n_layers_features_extractor self + 2
       \<and> fl ! (i + 2) = tensor_add (layer_output self m s i (fl ! (i + 1))) (fl ! (i + 1))"
proof -
  define L where "L = self_n_layers_features_extractor self"
  from assms(3) obtain st' where r: "run_layers self m s [0 ..< L] (mp_init self m s) = Inr st'"
    and fl: "fl = entries st'"
    by (auto simp: message_passing_def entries_def L_def split: sum.splits)
  from run_layers_residual [OF assms(1,2) mp_init_aliased(1) r] mp_init_aliased(2) [of self m s]
  have len: "length (entries st') = 2 + L"
    and all: "\<forall>k<L. entries st' ! (2 + k)
            = tensor_add (layer_output self m s ([0 ..< L] ! k) (entries st' ! (2 + k - 1)))
                (entries st' ! (2 + k - 1))"
    by simp_all
  from assms(4) have iL: "i < L" by (simp add: L_def)
  with all have "entries st' ! (2 + i)
            = tensor_add (layer_output self m s ([0 ..< L] ! i) (entries st' ! (2 + i - 1)))
                (entries st' ! (2 + i - 1))"
    by blast
  with iL len show ?thesis
    by (simp add: fl L_def add.commute)
qed

text \<open>
  On the example the embedder gives 3, 4, 6, 5 and the layer 6, 7, 9, 8: the entry recorded
  for the layer holds the sums.
\<close>

theorem residual_layer_entry_witness:
  "\<exists>fl. message_passing (example_self ''att'' ''max'' False) example_modules example_locals4 = Inr fl
     \<and> length fl = 3
     \<and> fl ! 1 = [[3], [4], [6], [5]]
     \<and> layer_output (example_self ''att'' ''max'' False) example_modules example_locals4 0 (fl ! 1)
         = [[6], [7], [9], [8]]
     \<and> fl ! 2 = [[9], [11], [15], [13]]
     \<and> fl ! 2 = tensor_add (layer_output (example_self ''att'' ''max'' False) example_modules
                              example_locals4 0 (fl ! 1)) (fl ! 1)"
proof -
  define r where "r = message_passing (example_self ''att'' ''max'' False) example_modules
                        example_locals4"
  have "\<not> isl r" unfolding r_def by code_simp
  then obtain fl where fl: "r = Inr fl" by (cases r) auto
  have v1: "projr r ! 1 = [[3], [4], [6], [5]]" unfolding r_def by code_simp
  have v2: "projr r ! 2 = [[9], [11], [15], [13]]" unfolding r_def by code_simp
  have v3: "layer_output (example_self ''att'' ''max'' False) example_modules example_locals4 0
              [[3], [4], [6], [5]] = [[6], [7], [9], [8]]"
    by code_simp
  have h1: "self_residual (example_self ''att'' ''max'' False)"
    and h2: "\<not> self_normalize (example_self ''att'' ''max'' False)"
    and h3: "0 < self_n_layers_features_extractor (example_self ''att'' ''max'' False)"
    and h4: "self_n_layers_features_extractor (example_self ''att'' ''max'' False) + 2 = 3"
    by (simp_all add: example_self_def)
  have v4: "tensor_add [[6], [7], [9], [8]] [[3], [4], [6], [5]] = [[9], [11], [15], [13]]"
    by code_simp
  from residual_layer_entry [OF h1 h2 fl [unfolded r_def] h3] fl v1 v2 v3 v4 h4
  show ?thesis unfolding r_def by simp
qed

section \<open>Node conflicts: the edges of the machine nodes\<close>

lemma max_indices_less:
  assumes "blk \<noteq> []"
  shows "max_indices blk < length blk"
proof -
  from assms have "Max (set blk) \<in> set blk" by (intro Max_in) simp_all
  then have "\<exists>v\<in>set blk. \<not> v \<noteq> max_values blk" by (auto simp: max_values_def)
  then have "takeWhile (\<lambda>v. v \<noteq> max_values blk) blk \<noteq> blk"
    by (simp add: takeWhile_eq_all_conv)
  moreover have "length (takeWhile (\<lambda>v. v \<noteq> max_values blk) blk) \<le> length blk"
    by (rule length_takeWhile_le)
  moreover have "takeWhile (\<lambda>v. v \<noteq> max_values blk) blk = blk"
    if "length (takeWhile (\<lambda>v. v \<noteq> max_values blk) blk) = length blk"
    using that takeWhile_eq_take [of "\<lambda>v. v \<noteq> max_values blk" blk] by simp
  ultimately have "length (takeWhile (\<lambda>v. v \<noteq> max_values blk) blk) < length blk"
    by (meson le_neq_implies_less)
  then show ?thesis by (simp add: max_indices_def)
qed

lemma all_zero_max:
  assumes "blk \<noteq> []" and "list_all (\<lambda>v. v = 0) blk"
  shows "max_values blk = 0"
proof -
  from assms have "set blk = {0}" by (cases blk) (auto simp: list_all_iff)
  then show ?thesis by (simp add: max_values_def)
qed

lemma conflict_node_features:
  assumes "conflict_node self gs s = Inr s'"
  shows "features s' = map (zero_block (self_max_n_machines self))
           (features s @ replicate (gs_num_graphs gs * self_max_n_machines self)
                            (replicate (gs_x_shape1 gs) 0))"
    and "node_offset s' = node_offset s + gs_num_graphs gs * self_max_n_machines self"
  using assms by (auto simp: conflict_node_def Let_def split: if_splits)

text \<open>
  C7. In node-conflict mode, on a well-formed batch in which a machine block with maximum
  0 is all zero (a one-hot block, a zero block, a block of \<open>-1\<close>), the stage succeeds.
  It appends \<open>n_batch * max_n_machines\<close> rows, and for the tasks whose machine block is
  not all zero, in their order, first one edge from each task to the virtual node of its
  machine in its graph, tagged with the machine id plus 3, then one edge from that virtual
  node back to each task, tagged with the machine id plus 3 plus \<open>max_n_machines\<close>; it
  appends nothing else, so the number of new edges is twice the number of these tasks.
\<close>

theorem node_conflict_edges:
  assumes c: "self_conflicts self = ''node''"
    and wf: "wf_graph_state gs"
    and w: "0 < block_width (gs_x_shape1 gs) (self_max_n_machines self)"
    and blk: "list_all (\<lambda>r. max_values (machine_block (self_max_n_machines self) r) = 0
                 \<longrightarrow> list_all (\<lambda>v. v = 0) (machine_block (self_max_n_machines self) r))
               (gs_x gs)"
    and s: "s = pooling_stage self gs (initial_locals self gs)"
    and M: "M = self_max_n_machines self"
  shows "\<exists>s'. conflict_stage self gs s = Inr s'
           \<and> conflict_edges_added s s'
               = map (\<lambda>i. (int i, targetmachinenode M gs (node_offset s) i)) (assigned_tasks M gs)
                 @ map (\<lambda>i. (targetmachinenode M gs (node_offset s) i, int i)) (assigned_tasks M gs)
           \<and> drop (length (edge_codes s)) (edge_codes s')
               = map (\<lambda>i. node_machineid M gs i + 3) (assigned_tasks M gs)
                 @ map (\<lambda>i. node_machineid M gs i + 3 + int M) (assigned_tasks M gs)
           \<and> list_all (\<lambda>i. \<exists>g<gs_num_graphs gs. \<exists>k<M.
                  gs_ptr gs ! g \<le> i \<and> i < gs_ptr gs ! (g + 1)
                  \<and> node_machineid M gs i = int k
                  \<and> targetmachinenode M gs (node_offset s) i = int (node_offset s + g * M + k))
               (assigned_tasks M gs)
           \<and> node_offset s = length (features s)
           \<and> length (features s') = length (features s) + gs_num_graphs gs * M
           \<and> length (conflict_edges_added s s')
               = 2 * length (filter (\<lambda>r. \<not> list_all (\<lambda>v. v = 0) (machine_block M r)) (gs_x gs))"
proof -
  define mid where "mid i = machineid_row (machine_block M (gs_x gs ! i))" for i
  define idx where "idx = filter (\<lambda>i. mid i \<noteq> - 1) [0 ..< length (gs_x gs)]"
  define hub where "hub i = gs_batch gs ! i * int M + mid i + int (node_offset s)" for i
  from wf have lb: "length (gs_batch gs) = length (gs_x gs)"
    and le: "length (fst (gs_edge_index gs)) = length (snd (gs_edge_index gs))"
    and rows: "list_all (\<lambda>r. length r = gs_x_shape1 gs) (gs_x gs)"
    by (simp_all add: wf_graph_state_def)
  from conflict_node_succeeds [OF w lb] obtain s' where r': "conflict_node self gs s = Inr s'"
    by blast
  with c have r: "conflict_stage self gs s = Inr s'"
    by (simp add: conflict_stage_def)
  have t: "take (length (gs_x gs)) (features s) = gs_x gs"
    unfolding s by (rule features_pooling_stage)
  have len: "length (edge_index_0 s) = length (edge_index_1 s)"
    unfolding s using le by (rule lengths_pooling_stage)
  have lc: "length (edge_codes s) = length (edge_codes s)" ..
  note res = conflict_node_result [OF r' t, folded M, folded mid_def, folded idx_def,
      folded hub_def]
  have ne: "machine_block M (gs_x gs ! i) \<noteq> []" if "i < length (gs_x gs)" for i
  proof -
    from that rows have "length (gs_x gs ! i) = gs_x_shape1 gs" by (simp add: list_all_length)
    with w show ?thesis using length_machine_block [of M "gs_x gs ! i"] by (auto simp: M)
  qed
  have assigned: "(mid i \<noteq> - 1) = (\<not> list_all (\<lambda>v. v = 0) (machine_block M (gs_x gs ! i)))"
    if i: "i < length (gs_x gs)" for i
  proof -
    from blk i have "max_values (machine_block M (gs_x gs ! i)) = 0
        \<longrightarrow> list_all (\<lambda>v. v = 0) (machine_block M (gs_x gs ! i))"
      by (simp add: list_all_length M)
    with all_zero_max [OF ne [OF i]]
    have "max_values (machine_block M (gs_x gs ! i)) = 0
        \<longleftrightarrow> list_all (\<lambda>v. v = 0) (machine_block M (gs_x gs ! i))"
      by blast
    then show ?thesis by (simp add: mid_def machineid_row_def)
  qed
  have idx: "idx = assigned_tasks M gs"
    unfolding idx_def assigned_tasks_def by (rule filter_cong) (simp_all add: assigned)
  have mid: "mid = node_machineid M gs"
    by (rule ext) (simp add: mid_def node_machineid_def)
  have hub: "hub = targetmachinenode M gs (node_offset s)"
    by (rule ext) (simp add: hub_def targetmachinenode_def mid)
  have edges: "conflict_edges_added s s'
      = map (\<lambda>i. (int i, hub i)) idx @ map (\<lambda>i. (hub i, int i)) idx"
    by (simp add: conflict_edges_added_def res(1,2) len zip_map_map)
       (simp add: zip_same_conv_map)
  have codes: "drop (length (edge_codes s)) (edge_codes s')
      = map (\<lambda>i. mid i + 3) idx @ map (\<lambda>i. mid i + 3 + int M) idx"
    by (simp add: res(3))
  have where_hub: "\<exists>g<gs_num_graphs gs. \<exists>k<M.
                  gs_ptr gs ! g \<le> i \<and> i < gs_ptr gs ! (g + 1)
                  \<and> mid i = int k
                  \<and> hub i = int (node_offset s + g * M + k)"
    if "i \<in> set idx" for i
  proof -
    from that have i: "i < length (gs_x gs)" and a: "mid i \<noteq> - 1" by (simp_all add: idx_def)
    from wf_batch_cover [OF wf i] obtain g where g: "g < gs_num_graphs gs"
      "gs_ptr gs ! g \<le> i" "i < gs_ptr gs ! (g + 1)" "gs_batch gs ! i = int g"
      by blast
    define k where "k = max_indices (machine_block M (gs_x gs ! i))"
    from a have mk: "mid i = int k"
      by (simp add: mid_def machineid_row_def k_def split: if_splits)
    from max_indices_less [OF ne [OF i]] have "k < length (machine_block M (gs_x gs ! i))"
      by (simp add: k_def)
    then have kM: "k < M" by (simp add: machine_block_def)
    have "hub i = int (node_offset s + g * M + k)"
      by (simp add: hub_def g(4) mk)
    with g kM mk show ?thesis by blast
  qed
  have off: "node_offset s = length (features s)"
    unfolding s using wf
    by (simp add: pooling_stage_def initial_locals_def Let_def)
  have rows': "length (features s') = length (features s) + gs_num_graphs gs * M"
    by (simp add: conflict_node_features(1) [OF r'] M)
  have "length (conflict_edges_added s s') = 2 * length idx"
    by (simp add: edges)
  also have "length idx
      = length (filter (\<lambda>r. \<not> list_all (\<lambda>v. v = 0) (machine_block M r)) (gs_x gs))"
    unfolding idx assigned_tasks_def by (rule length_filter_nth)
  finally have count: "length (conflict_edges_added s s')
      = 2 * length (filter (\<lambda>r. \<not> list_all (\<lambda>v. v = 0) (machine_block M r)) (gs_x gs))" .
  from where_hub have "list_all (\<lambda>i. \<exists>g<gs_num_graphs gs. \<exists>k<M.
                  gs_ptr gs ! g \<le> i \<and> i < gs_ptr gs ! (g + 1)
                  \<and> mid i = int k
                  \<and> hub i = int (node_offset s + g * M + k)) idx"
    by (simp add: list_all_iff)
  with r edges codes off rows' count show ?thesis
    unfolding idx mid hub by blast
qed

text \<open>
  On the example the five tasks all have a machine: the tasks 0, 1, 2 are linked with node
  5 (machine 0 of the first graph), task 3 with node 7 and task 4 with node 8 (machines 0
  and 1 of the second graph), then the same edges reversed: ten edges.
\<close>

theorem node_conflict_edges_witness:
  "\<exists>s'. conflict_stage (example_self ''node'' ''max'' False) example_graph
            (example_locals ''node'' ''max'') = Inr s'
     \<and> conflict_edges_added (example_locals ''node'' ''max'') s'
         = [(0, 5), (1, 5), (2, 5), (3, 7), (4, 8), (5, 0), (5, 1), (5, 2), (7, 3), (8, 4)]
     \<and> drop (length (edge_codes (example_locals ''node'' ''max''))) (edge_codes s')
         = [3, 3, 3, 3, 4, 5, 5, 5, 5, 6]
     \<and> length (features s') = 9
     \<and> length (conflict_edges_added (example_locals ''node'' ''max'') s') = 10"
proof -
  have c: "self_conflicts (example_self ''node'' ''max'' False) = ''node''"
    by (simp add: example_self_def)
  have M: "2 = self_max_n_machines (example_self ''node'' ''max'' False)"
    by (simp add: example_self_def)
  have wf: "wf_graph_state example_graph" by code_simp
  have w: "0 < block_width (gs_x_shape1 example_graph)
                 (self_max_n_machines (example_self ''node'' ''max'' False))"
    by code_simp
  have blk: "list_all (\<lambda>r. max_values (machine_block
                 (self_max_n_machines (example_self ''node'' ''max'' False)) r) = 0
               \<longrightarrow> list_all (\<lambda>v. v = 0) (machine_block
                 (self_max_n_machines (example_self ''node'' ''max'' False)) r))
             (gs_x example_graph)"
    by code_simp
  have e: "map (\<lambda>i. (int i, targetmachinenode 2 example_graph
                      (node_offset (example_locals ''node'' ''max'')) i))
             (assigned_tasks 2 example_graph)
           @ map (\<lambda>i. (targetmachinenode 2 example_graph
                      (node_offset (example_locals ''node'' ''max'')) i, int i))
             (assigned_tasks 2 example_graph)
         = [(0, 5), (1, 5), (2, 5), (3, 7), (4, 8), (5, 0), (5, 1), (5, 2), (7, 3), (8, 4)]"
    by code_simp
  have k: "map (\<lambda>i. node_machineid 2 example_graph i + 3) (assigned_tasks 2 example_graph)
           @ map (\<lambda>i. node_machineid 2 example_graph i + 3 + int 2) (assigned_tasks 2 example_graph)
         = [3, 3, 3, 3, 4, 5, 5, 5, 5, 6]"
    by code_simp
  have n: "length (features (example_locals ''node'' ''max''))
             + gs_num_graphs example_graph * 2 = 9"
    by code_simp
  have f: "length (filter (\<lambda>r. \<not> list_all (\<lambda>v. v = 0) (machine_block 2 r))
             (gs_x example_graph)) = 5"
    by code_simp
  from node_conflict_edges [OF c wf w blk example_locals_def M]
  show ?thesis unfolding e k n f by auto
qed

section \<open>Clique conflicts: where the strategies agree and where they differ\<close>




section \<open>The forward pass: results\<close>

lemma has_shape_same:
  assumes "same_shape a b" and "has_shape n w b"
  shows "has_shape n w a"
proof -
  from assms(1) have m: "map length a = map length b" by (simp add: same_shape_def)
  then have "length a = length b" by (rule map_eq_imp_length_eq)
  moreover have "length r = w" if "r \<in> set a" for r
  proof -
    from that have "length r \<in> set (map length a)" by simp
    with m have "length r \<in> set (map length b)" by simp
    with assms(2) show ?thesis by (auto simp: has_shape_def list_all_iff)
  qed
  ultimately show ?thesis using assms(2) by (simp add: has_shape_def list_all_iff)
qed

lemma same_shape_has_shape:
  assumes "has_shape n w a" and "has_shape n w b"
  shows "same_shape a b"
  unfolding same_shape_def
proof (rule nth_equalityI)
  from assms show "length (map length a) = length (map length b)" by (simp add: has_shape_def)
  fix i assume "i < length (map length a)"
  with assms show "map length a ! i = map length b ! i"
    by (simp add: has_shape_def list_all_length)
qed

lemma has_shape_elu: "has_shape n w t \<Longrightarrow> has_shape n w (map (map elu) t)"
  by (simp add: has_shape_def list_all_iff)

lemma has_shape_tensor_add:
  assumes "has_shape n w a" and "has_shape n w b"
  shows "has_shape n w (tensor_add a b)"
  using assms
  by (auto simp: has_shape_def tensor_add_def list_all_length)

lemma layer_output_shape:
  assumes c: "modules_contract self m"
  shows "has_shape (length t) (self_hidden_dim_features_extractor self)
           (layer_output self m s layer t)"
proof -
  define H where "H = self_hidden_dim_features_extractor self"
  define fill where "fill = (if self_gconv_type self = ''gatv2''
                             then Some (edge_embedder m layer 0) else None)"
  define t1 where "t1 = features_extractors m layer fill t (edge_index_0 s, edge_index_1 s)
                          (map (edge_embedder m layer) (edge_codes s))"
  define t2 where "t2 = (if self_graph_has_relu self \<or> self_gconv_type self = ''gatv2''
                         then map (map elu) t1 else t1)"
  define t3 where "t3 = (if self_gconv_type self = ''gatv2'' then mlps m layer t2 else t2)"
  define t4 where "t4 = (if self_normalize self then norms m layer t3 (batch_id s) else t3)"
  have lo: "layer_output self m s layer t = t4"
    by (simp add: layer_output_def Let_def t4_def t3_def t2_def t1_def fill_def)
  from c have mlp: "\<And>l x. has_shape (length x) H (mlps m l x)"
    and nrm: "\<And>l x b. same_shape (norms m l x b) x"
    by (simp_all add: modules_contract_def H_def)
  have s3: "has_shape (length t) H t3"
  proof (cases "self_gconv_type self = ''gatv2''")
    case True
    with c have "length t1 = length t"
      by (simp add: modules_contract_def t1_def)
    with True have "length t2 = length t" by (simp add: t2_def)
    with mlp [of t2 layer] True show ?thesis by (simp add: t3_def)
  next
    case False
    with c have "has_shape (length t) H t1"
      by (simp add: modules_contract_def t1_def H_def)
    then have "has_shape (length t) H t2"
      by (simp add: t2_def has_shape_elu)
    with False show ?thesis by (simp add: t3_def)
  qed
  have "has_shape (length t) H t4"
  proof (cases "self_normalize self")
    case True
    with has_shape_same [OF nrm s3] show ?thesis by (simp add: t4_def)
  next
    case False
    with s3 show ?thesis by (simp add: t4_def)
  qed
  then show ?thesis by (simp add: lo H_def)
qed

lemma mp_init_shaped:
  assumes c: "modules_contract self m" and f: "has_shape n F (features s)"
  shows "shaped n F (self_hidden_dim_features_extractor self) (mp_init self m s)"
    and "length (features_list (mp_init self m s)) = 2"
proof -
  define H where "H = self_hidden_dim_features_extractor self"
  define f0 where "f0 = (if self_normalize self then norm0 m (features s) (batch_id s)
                         else features s)"
  define e where "e = embedder m f0"
  define f1 where "f1 = (if self_normalize self then norm1 m e (batch_id s) else e)"
  have st: "mp_init self m s = \<lparr> heap = [f0, f1], features_ref = 1, features_list = [0, 1] \<rparr>"
    by (simp add: mp_init_def alloc_def Let_def f0_def e_def f1_def)
  from c have n0: "same_shape (norm0 m (features s) (batch_id s)) (features s)"
    and n1: "same_shape (norm1 m e (batch_id s)) e"
    and em: "has_shape (length f0) H e"
    by (simp_all add: modules_contract_def e_def H_def)
  have s0: "has_shape n F f0"
    using has_shape_same [OF n0 f] f by (simp add: f0_def)
  then have "length f0 = n" by (simp add: has_shape_def)
  with em have se: "has_shape n H e" by simp
  have s1: "has_shape n H f1"
    using has_shape_same [OF n1 se] se by (simp add: f1_def)
  from s0 s1 show "shaped n F (self_hidden_dim_features_extractor self) (mp_init self m s)"
    by (simp add: st shaped_def H_def)
  show "length (features_list (mp_init self m s)) = 2" by (simp add: st)
qed

lemma layer_step_shaped:
  assumes c: "modules_contract self m"
    and inv: "shaped n F (self_hidden_dim_features_extractor self) st"
  shows "\<exists>st'. layer_step self m s layer st = Inr st'
           \<and> shaped n F (self_hidden_dim_features_extractor self) st'
           \<and> length (features_list st') = length (features_list st) + 1"
proof -
  define H where "H = self_hidden_dim_features_extractor self"
  define h where "h = heap st"
  define fl0 where "fl0 = features_list st"
  define out where "out = layer_output self m s layer (h ! features_ref st)"
  define r1 where "r1 = length h"
  define fl where "fl = fl0 @ [r1]"
  define prev where "prev = last fl0"
  note inv' = inv [unfolded shaped_def, folded H_def h_def fl0_def]
  from inv' have l2: "2 \<le> length fl0"
    and lt: "\<forall>r\<in>set fl0. r < length h"
    and cur: "has_shape n H (h ! features_ref st)"
    and first: "has_shape n F (h ! hd fl0)"
    and rest: "\<forall>r\<in>set (tl fl0). has_shape n H (h ! r)"
    by (simp_all add: list_all_iff)
  from cur have "length (h ! features_ref st) = n" by (simp add: has_shape_def)
  with layer_output_shape [OF c, of "h ! features_ref st" s layer]
  have so: "has_shape n H out" by (simp add: out_def H_def)
  from l2 have ne: "fl0 \<noteq> []" and tne: "tl fl0 \<noteq> []"
    by (cases fl0; cases "tl fl0"; simp)+
  have pin: "prev \<in> set (tl fl0)"
    using tne ne unfolding prev_def by (metis last_in_set last_tl)
  with rest have sp: "has_shape n H (h ! prev)" by simp
  from pin lt have pl: "prev < length h" by (metis list.set_sel(2) ne)
  have i2: "fl ! (length fl0 - Suc 0) = prev"
    using ne by (simp add: fl_def prev_def last_conv_nth nth_append)
  have rd: "(h @ [out]) ! prev = h ! prev" "(h @ [out]) ! r1 = out"
    using pl by (simp_all add: nth_append r1_def)
  have ss: "same_shape out (h ! prev)" using so sp by (rule same_shape_has_shape)
  define h2 where "h2 = (h @ [out]) [r1 := tensor_add out (h ! prev)]"
  have h2: "h2 = h @ [tensor_add out (h ! prev)]" by (simp add: h2_def r1_def)
  have sa: "has_shape n H (tensor_add out (h ! prev))"
    using so sp by (rule has_shape_tensor_add)
  have old1: "(h @ [x]) ! r = h ! r" if "r \<in> set fl0" for r x
    using that lt by (simp add: nth_append)
  have old2: "(h @ [x] @ [y]) ! r = h ! r" if "r \<in> set fl0" for r x y
    using that lt by (simp add: nth_append)
  have hd_in: "hd fl0 \<in> set fl0" using ne by simp
  have tl_in: "r \<in> set fl0" if "r \<in> set (tl fl0)" for r
    using that ne by (metis list.set_sel(2))
  have lfl: "length fl = length fl0 + 1" "hd fl = hd fl0" "tl fl = tl fl0 @ [r1]"
    "2 \<le> length fl" using ne l2 by (simp_all add: fl_def)
  consider (plain) "\<not> self_residual self"
    | (res) "self_residual self" "\<not> self_normalize self"
    | (resnorm) "self_residual self" "self_normalize self"
    by blast
  then show ?thesis
  proof cases
    case plain
    define st' where "st' = \<lparr> heap = h @ [out], features_ref = r1, features_list = fl \<rparr>"
    have step: "layer_step self m s layer st = Inr st'"
      using plain
      by (simp add: layer_step_def alloc_def Let_def st'_def fl_def r1_def out_def h_def fl0_def)
    have "shaped n F H st'"
      unfolding shaped_def st'_def
      using lfl so first rest lt old1 hd_in tl_in
      by (auto simp: list_all_iff r1_def fl_def nth_append)
    with step lfl(1) show ?thesis
      by (auto simp: st'_def H_def fl0_def)
  next
    case res
    define st' where "st' = \<lparr> heap = h2, features_ref = r1, features_list = fl \<rparr>"
    have step: "layer_step self m s layer st = Inr st'"
      using res ss
      unfolding layer_step_def alloc_def Let_def h_def [symmetric] fl0_def [symmetric]
        out_def [symmetric] r1_def [symmetric]
      by (simp add: fl_def [symmetric] i2 iadd_def rd st'_def h2_def)
    have "shaped n F H st'"
      unfolding shaped_def st'_def h2
      using lfl sa first rest lt old1 hd_in tl_in
      by (auto simp: list_all_iff r1_def fl_def nth_append)
    with step lfl(1) show ?thesis
      by (auto simp: st'_def H_def fl0_def)
  next
    case resnorm
    define nb where "nb = normsbis m layer (h2 ! r1) (batch_id s)"
    define st' where "st' = \<lparr> heap = h2 @ [nb], features_ref = Suc r1, features_list = fl \<rparr>"
    have step: "layer_step self m s layer st = Inr st'"
      using resnorm ss
      unfolding layer_step_def alloc_def Let_def h_def [symmetric] fl0_def [symmetric]
        out_def [symmetric] r1_def [symmetric]
      by (simp add: fl_def [symmetric] i2 iadd_def rd st'_def h2_def [symmetric] nb_def)
        (simp add: h2 r1_def)
    have "h2 ! r1 = tensor_add out (h ! prev)" by (simp add: h2 r1_def)
    moreover from c have "same_shape nb (h2 ! r1)"
      by (simp add: modules_contract_def nb_def)
    ultimately have sn: "has_shape n H nb" using sa has_shape_same by simp
    have "shaped n F H st'"
      unfolding shaped_def st'_def h2
      using lfl sa sn first rest lt old1 hd_in tl_in
      by (auto simp: list_all_iff r1_def fl_def nth_append)
    with step lfl(1) show ?thesis
      by (auto simp: st'_def H_def fl0_def)
  qed
qed

lemma run_layers_shaped:
  assumes c: "modules_contract self m"
  shows "shaped n F (self_hidden_dim_features_extractor self) st \<Longrightarrow>
     \<exists>st'. run_layers self m s ls st = Inr st'
        \<and> shaped n F (self_hidden_dim_features_extractor self) st'
        \<and> length (features_list st') = length (features_list st) + length ls"
proof (induction ls arbitrary: st)
  case Nil
  then show ?case by simp
next
  case (Cons l ls)
  from layer_step_shaped [OF c Cons.prems, of s l] obtain st1
    where s1: "layer_step self m s l st = Inr st1"
      and i1: "shaped n F (self_hidden_dim_features_extractor self) st1"
      and l1: "length (features_list st1) = length (features_list st) + 1"
    by blast
  from Cons.IH [OF i1] obtain st'
    where "run_layers self m s ls st1 = Inr st'"
      "shaped n F (self_hidden_dim_features_extractor self) st'"
      "length (features_list st') = length (features_list st1) + length ls"
    by blast
  with s1 l1 show ?case by simp
qed

lemma message_passing_shape:
  assumes c: "modules_contract self m" and f: "has_shape n F (features s)"
  shows "\<exists>fl. message_passing self m s = Inr fl
           \<and> length fl = self_n_layers_features_extractor self + 2
           \<and> has_shape n F (hd fl)
           \<and> list_all (has_shape n (self_hidden_dim_features_extractor self)) (tl fl)"
proof -
  define H where "H = self_hidden_dim_features_extractor self"
  define L where "L = self_n_layers_features_extractor self"
  note i0 = mp_init_shaped [OF c f, folded H_def]
  from run_layers_shaped [OF c, folded H_def, OF i0(1), of s "[0 ..< L]"] i0(2)
  obtain st' where r: "run_layers self m s [0 ..< L] (mp_init self m s) = Inr st'"
    and sh: "shaped n F H st'" and len: "length (features_list st') = 2 + L"
    by auto
  define fl where "fl = map (\<lambda>r. heap st' ! r) (features_list st')"
  from r have mp: "message_passing self m s = Inr fl"
    by (simp add: message_passing_def fl_def L_def)
  from len have ne: "features_list st' \<noteq> []" by auto
  from sh ne have "has_shape n F (hd fl)"
    by (simp add: shaped_def fl_def hd_map)
  moreover from sh have "list_all (has_shape n H) (tl fl)"
    by (simp add: shaped_def fl_def map_tl [symmetric] list_all_iff)
  moreover from len have "length fl = L + 2" by (simp add: fl_def)
  ultimately show ?thesis using mp by (simp add: H_def L_def)
qed

lemma sum_list_const:
  assumes "\<forall>x\<in>set xs. f x = (c::nat)"
  shows "sum_list (map f xs) = length xs * c"
  using assms by (induction xs) auto

lemma cat_axis1_shape:
  assumes len: "length fl = L + 2" and h: "has_shape n F (hd fl)"
    and t: "list_all (has_shape n H) (tl fl)"
  shows "\<exists>feats. cat_axis1 fl = Inr feats \<and> has_shape n (F + H * (L + 1)) feats
           \<and> (\<forall>i<n. feats ! i = concat (map (\<lambda>t. t ! i) fl))"
proof -
  from len obtain f0 rest where fl: "fl = f0 # rest" and lr: "length rest = L + 1"
    by (cases fl) auto
  from h t fl have s0: "has_shape n F f0" and sr: "\<forall>t\<in>set rest. has_shape n H t"
    by (simp_all add: list_all_iff)
  then have rows: "list_all (\<lambda>t. length t = length (hd fl)) fl"
    by (auto simp: fl has_shape_def list_all_iff)
  define feats where "feats = map (\<lambda>i. concat (map (\<lambda>t. t ! i) fl)) [0 ..< n]"
  from s0 have n: "length (hd fl) = n" by (simp add: fl has_shape_def)
  from rows n have c: "cat_axis1 fl = Inr feats"
    by (simp add: cat_axis1_def feats_def fl)
  have w: "length (concat (map (\<lambda>t. t ! i) fl)) = F + H * (L + 1)" if "i < n" for i
  proof -
    from that s0 have "length (f0 ! i) = F" by (simp add: has_shape_def list_all_length)
    moreover have "\<forall>t\<in>set rest. length (t ! i) = H"
      using that sr by (simp add: has_shape_def list_all_length)
    then have "sum_list (map (\<lambda>t. length (t ! i)) rest) = length rest * H"
      by (rule sum_list_const)
    ultimately show ?thesis
      by (simp add: fl length_concat comp_def lr)
  qed
  have "has_shape n (F + H * (L + 1)) feats"
    using w by (simp add: has_shape_def feats_def list_all_iff)
  moreover have "\<forall>i<n. feats ! i = concat (map (\<lambda>t. t ! i) fl)"
    by (simp add: feats_def)
  ultimately show ?thesis using c by blast
qed

lemma concat_uniform:
  assumes "\<forall>r\<in>set t. length r = w"
  shows "length (concat t) = length t * w"
    and "k < length t \<Longrightarrow> take w (drop (k * w) (concat t)) = t ! k"
  using assms
proof (induction t arbitrary: k)
  case Nil
  { case 1 show ?case by simp }
  { case 2 then show ?case by simp }
next
  case (Cons r t)
  { case 1
    with Cons.IH(1) show ?case by simp }
  { case 2
    show ?case
    proof (cases k)
      case 0
      with 2 show ?thesis by simp
    next
      case (Suc k')
      with 2 Cons.IH(2) [of k'] show ?thesis by simp
    qed }
qed

lemma reshape3_uniform:
  assumes s: "has_shape (b * n) w t" and pos: "0 < b" "0 < n"
  shows "reshape3 b n t = Inr (map (\<lambda>i. map (\<lambda>j. t ! (i * n + j)) [0 ..< n]) [0 ..< b])"
    and "inferred_dim b n t = w"
proof -
  from s have rows: "\<forall>r\<in>set t. length r = w" and lt: "length t = b * n"
    by (simp_all add: has_shape_def list_all_iff)
  note cu = concat_uniform [OF rows]
  from pos have bn: "0 < b * n" by simp
  show k: "inferred_dim b n t = w"
    using bn by (simp add: inferred_dim_def cu(1) lt)
  have idx: "i * n + j < length t" if "i < b" "j < n" for i j
  proof -
    from that have "i * n + j < i * n + n" by simp
    also have "\<dots> = Suc i * n" by simp
    also from that have "\<dots> \<le> b * n" by (intro mult_le_mono1) simp
    finally show ?thesis by (simp add: lt)
  qed
  have "map (\<lambda>i. map (\<lambda>j. take w (drop ((i * n + j) * w) (concat t))) [0 ..< n]) [0 ..< b]
        = map (\<lambda>i. map (\<lambda>j. t ! (i * n + j)) [0 ..< n]) [0 ..< b]"
    by (intro map_cong refl) (simp add: cu(2) idx)
  then show "reshape3 b n t = Inr (map (\<lambda>i. map (\<lambda>j. t ! (i * n + j)) [0 ..< n]) [0 ..< b])"
    using bn by (simp add: reshape3_def Let_def k cu(1) lt)
qed

lemma length_zero_block: "length (zero_block M r) = length r"
  by (simp add: zero_block_def machine_block_def)

lemma clique_edges_succeeds:
  assumes wf: "wf_graph_state gs"
    and w: "0 < block_width (gs_x_shape1 gs) (self_max_n_machines self)"
  shows "\<exists>new. clique_edges self gs feats = Inr new"
proof -
  from wf have lb: "length (gs_batch gs) = length (gs_x gs)" by (simp add: wf_graph_state_def)
  from w have F: "gs_x_shape1 gs \<noteq> 0" by (auto simp: block_width_def)
  from w lb F show ?thesis
    by (simp add: clique_edges_def clique_highmem_def clique_mediummem_def
          clique_exhaustive_def Let_def)
qed

text \<open>The augmentation succeeds and leaves a feature matrix of the input width.\<close>

lemma augment_shape:
  assumes wf: "wf_graph_state gs"
    and blk: "self_conflicts self = ''clique'' \<or> self_conflicts self = ''node''
                \<longrightarrow> 0 < block_width (gs_x_shape1 gs) (self_max_n_machines self)"
  shows "\<exists>s. augment self gs = Inr s
           \<and> list_all (\<lambda>r. length r = gs_x_shape1 gs) (features s)
           \<and> length (gs_x gs) \<le> length (features s)
           \<and> (self_graph_pooling self = ''learn''
                \<longrightarrow> length (gs_x gs) + gs_num_graphs gs \<le> length (features s))"
proof -
  define p where "p = pooling_stage self gs (initial_locals self gs)"
  from wf have rows: "\<forall>r\<in>set (gs_x gs). length r = gs_x_shape1 gs"
    and lb: "length (gs_batch gs) = length (gs_x gs)"
    by (simp_all add: wf_graph_state_def list_all_iff)
  have fp: "features p = gs_x gs @ (if self_graph_pooling self = ''learn''
              then replicate (gs_num_graphs gs) (replicate (gs_x_shape1 gs) 0) else [])"
    by (simp add: p_def pooling_stage_def initial_locals_def Let_def)
  have pr: "\<forall>r\<in>set (features p). length r = gs_x_shape1 gs"
    using rows by (auto simp: fp)
  have pl: "length (gs_x gs) \<le> length (features p)"
    "self_graph_pooling self = ''learn''
       \<longrightarrow> length (gs_x gs) + gs_num_graphs gs \<le> length (features p)"
    by (simp_all add: fp)
  have "\<exists>c. conflict_stage self gs p = Inr c
          \<and> (\<forall>r\<in>set (features c). length r = gs_x_shape1 gs)
          \<and> length (features p) \<le> length (features c)"
  proof (cases "self_conflicts self = ''clique''")
    case True
    with blk clique_edges_succeeds [OF wf, of self "features p"]
    obtain new where "clique_edges self gs (features p) = Inr new" by auto
    with True pr show ?thesis
      by (simp add: conflict_stage_def append_edges_def)
  next
    case False
    show ?thesis
    proof (cases "self_conflicts self = ''node''")
      case True
      with blk have w: "0 < block_width (gs_x_shape1 gs) (self_max_n_machines self)" by simp
      from conflict_node_succeeds [OF w lb, of p] obtain c
        where cn: "conflict_node self gs p = Inr c" by blast
      then have "features c = map (zero_block (self_max_n_machines self))
                    (features p @ replicate (gs_num_graphs gs * self_max_n_machines self)
                                     (replicate (gs_x_shape1 gs) 0))"
        by (auto simp: conflict_node_def Let_def split: if_splits)
      with pr have "\<forall>r\<in>set (features c). length r = gs_x_shape1 gs"
        and "length (features p) \<le> length (features c)"
        by (auto simp: length_zero_block)
      with True False cn show ?thesis
        by (simp add: conflict_stage_def)
    next
      case n: False
      with False pr show ?thesis by (simp add: conflict_stage_def)
    qed
  qed
  then obtain c where c: "conflict_stage self gs p = Inr c"
    and cr: "\<forall>r\<in>set (features c). length r = gs_x_shape1 gs"
    and cl: "length (features p) \<le> length (features c)"
    by blast
  have "augment self gs = Inr (reverse_stage self c)"
    by (simp add: augment_def p_def [symmetric] c)
  moreover have "features (reverse_stage self c) = features c"
    by (simp add: reverse_stage_def)
  ultimately show ?thesis using cr cl pl
    by (auto simp: list_all_iff)
qed

text \<open>
  The result of the readout on a concatenated tensor of \<open>W\<close> columns: the node features
  are the first rows, graph by graph, and the result holds every node's row followed by
  the row of the graph embedding of its graph.
\<close>

lemma readout_result:
  assumes ob: "0 < get_batch_size obs" "0 < get_n_nodes obs"
      "length (gs_x (to_graph obs)) = get_batch_size obs * get_n_nodes obs"
      "gs_num_graphs (to_graph obs) = get_batch_size obs"
    and fs: "has_shape n W feats"
    and ln: "length (gs_x (to_graph obs)) \<le> n"
    and lp: "self_graph_pooling self = ''learn''
               \<longrightarrow> length (gs_x (to_graph obs)) + gs_num_graphs (to_graph obs) \<le> n"
    and gp: "self_graph_pooling self \<in> {''max'', ''avg'', ''learn''}"
  shows "\<exists>emb. graph_embedding self obs feats W
                  (map (\<lambda>i. map (\<lambda>j. feats ! (i * get_n_nodes obs + j)) [0 ..< get_n_nodes obs])
                     [0 ..< get_batch_size obs]) = Inr emb
           \<and> has_shape (get_batch_size obs) W emb
           \<and> readout self obs feats
               = Inr (map (\<lambda>i. map (\<lambda>j. feats ! (i * get_n_nodes obs + j) @ emb ! i)
                                 [0 ..< get_n_nodes obs])
                        [0 ..< get_batch_size obs])"
proof -
  define b where "b = get_batch_size obs"
  define nn where "nn = get_n_nodes obs"
  define N where "N = length (gs_x (to_graph obs))"
  define rows where "rows = take N feats"
  note ob' = ob [folded b_def nn_def N_def]
  from fs have fr: "\<forall>r\<in>set feats. length r = W" and fl: "length feats = n"
    by (simp_all add: has_shape_def list_all_iff)
  have rs: "has_shape (b * nn) W rows"
    using fr fl ln ob'(3) unfolding rows_def has_shape_def N_def [symmetric]
    by (auto simp: list_all_iff dest: in_set_takeD)
  define nf where "nf = map (\<lambda>i. map (\<lambda>j. rows ! (i * nn + j)) [0 ..< nn]) [0 ..< b]"
  note r1 = reshape3_uniform [OF rs ob'(1,2), folded nf_def]
  have idx: "i * nn + j < N" if "i < b" "j < nn" for i j
  proof -
    from that have "i * nn + j < Suc i * nn" by simp
    also from that have "\<dots> \<le> b * nn" by (intro mult_le_mono1) simp
    finally show ?thesis by (simp add: ob'(3))
  qed
  have nf_feats: "nf = map (\<lambda>i. map (\<lambda>j. feats ! (i * nn + j)) [0 ..< nn]) [0 ..< b]"
    unfolding nf_def by (intro map_cong refl) (simp add: rows_def idx)
  have "\<exists>emb. graph_embedding self obs feats W nf = Inr emb \<and> has_shape b W emb"
  proof -
    consider "self_graph_pooling self = ''max''" | "self_graph_pooling self = ''avg''"
      | "self_graph_pooling self \<noteq> ''max''" "self_graph_pooling self \<noteq> ''avg''"
        "self_graph_pooling self = ''learn''"
      using gp by auto
    then show ?thesis
    proof cases
      case 1
      then show ?thesis
        by (simp add: graph_embedding_def Let_def pool_max_def has_shape_def nf_def list_all_iff)
    next
      case 2
      then show ?thesis
        by (simp add: graph_embedding_def Let_def pool_avg_def has_shape_def nf_def list_all_iff)
    next
      case 3
      with lp have "N + b \<le> n" by (simp add: N_def ob(4) b_def)
      with fl fr have "has_shape b W (take b (drop N feats))"
        by (auto simp: has_shape_def list_all_iff dest!: in_set_takeD in_set_dropD)
      with 3 show ?thesis
        by (simp add: graph_embedding_def Let_def ob(4) b_def N_def)
    qed
  qed
  then obtain emb where ge: "graph_embedding self obs feats W nf = Inr emb"
    and es: "has_shape b W emb" by blast
  from es have es1: "has_shape (b * 1) W emb" by simp
  have one: "0 < (1::nat)" by simp
  note r2 = reshape3_uniform [OF es1 ob'(1) one]
  have r2a: "reshape3 b (Suc 0) emb = Inr (map (\<lambda>i. [emb ! i]) [0 ..< b])"
    using r2(1) by simp
  have r2b: "inferred_dim b 1 emb = W" "inferred_dim b (Suc 0) emb = W"
    using r2(2) by simp_all
  have ec: "expand_cat W W nn nf (map (\<lambda>i. [emb ! i]) [0 ..< b])
              = Inr (map (\<lambda>i. map (\<lambda>j. rows ! (i * nn + j) @ emb ! i) [0 ..< nn]) [0 ..< b])"
    unfolding expand_cat_def nf_def
    by (simp add: map2_same comp_def zip_map_map zip_same_conv_map)
  have rw: "map (\<lambda>i. map (\<lambda>j. rows ! (i * nn + j) @ emb ! i) [0 ..< nn]) [0 ..< b]
          = map (\<lambda>i. map (\<lambda>j. feats ! (i * nn + j) @ emb ! i) [0 ..< nn]) [0 ..< b]"
    by (intro map_cong refl) (simp add: rows_def idx)
  have "readout self obs feats
          = Inr (map (\<lambda>i. map (\<lambda>j. feats ! (i * nn + j) @ emb ! i) [0 ..< nn]) [0 ..< b])"
    unfolding readout_def Let_def b_def [symmetric] nn_def [symmetric] N_def [symmetric]
      rows_def [symmetric]
    by (simp add: r1 ge r2a r2b ec rw)
  with ge [unfolded nf_feats] es show ?thesis
    unfolding b_def nn_def by blast
qed

text \<open>
  The forward pass under the contracts: every stage succeeds, the concatenated tensor has
  the width \<open>F + H * (L + 1)\<close>, and the result holds, for every node, its row followed
  by the row of the graph embedding of its graph.
\<close>

lemma forward_result:
  assumes ob: "wf_observation obs" and c: "modules_contract self m"
    and gp: "self_graph_pooling self \<in> {''max'', ''avg'', ''learn''}"
    and blk: "self_conflicts self = ''clique'' \<or> self_conflicts self = ''node''
                \<longrightarrow> 0 < block_width (gs_x_shape1 (to_graph obs)) (self_max_n_machines self)"
    and W: "W = gs_x_shape1 (to_graph obs)
                + self_hidden_dim_features_extractor self
                  * (self_n_layers_features_extractor self + 1)"
  obtains s fl feats emb where
    "augment self (to_graph obs) = Inr s" "message_passing self m s = Inr fl"
    "cat_axis1 fl = Inr feats"
    "has_shape (length (features s)) W feats"
    "\<forall>i<length (features s). feats ! i = concat (map (\<lambda>t. t ! i) fl)"
    "length (gs_x (to_graph obs)) \<le> length (features s)"
    "self_graph_pooling self = ''learn''
       \<longrightarrow> length (gs_x (to_graph obs)) + gs_num_graphs (to_graph obs) \<le> length (features s)"
    "graph_embedding self obs feats W
       (map (\<lambda>i. map (\<lambda>j. feats ! (i * get_n_nodes obs + j)) [0 ..< get_n_nodes obs])
          [0 ..< get_batch_size obs]) = Inr emb"
    "has_shape (get_batch_size obs) W emb"
    "forward self m obs
       = Inr (map (\<lambda>i. map (\<lambda>j. feats ! (i * get_n_nodes obs + j) @ emb ! i)
                         [0 ..< get_n_nodes obs])
                [0 ..< get_batch_size obs])"
proof -
  define gs where "gs = to_graph obs"
  from ob have wf: "wf_graph_state gs" and o: "0 < get_batch_size obs" "0 < get_n_nodes obs"
    "length (gs_x (to_graph obs)) = get_batch_size obs * get_n_nodes obs"
    "gs_num_graphs (to_graph obs) = get_batch_size obs"
    by (simp_all add: wf_observation_def gs_def)
  from augment_shape [OF wf blk [folded gs_def]] obtain s
    where a: "augment self gs = Inr s"
      and fr: "list_all (\<lambda>r. length r = gs_x_shape1 gs) (features s)"
      and ln: "length (gs_x gs) \<le> length (features s)"
      and lp: "self_graph_pooling self = ''learn''
                 \<longrightarrow> length (gs_x gs) + gs_num_graphs gs \<le> length (features s)"
    by blast
  define n where "n = length (features s)"
  from fr have fs: "has_shape n (gs_x_shape1 gs) (features s)"
    by (simp add: has_shape_def n_def)
  from message_passing_shape [OF c fs] obtain fl
    where mp: "message_passing self m s = Inr fl"
      and len: "length fl = self_n_layers_features_extractor self + 2"
      and h: "has_shape n (gs_x_shape1 gs) (hd fl)"
      and t: "list_all (has_shape n (self_hidden_dim_features_extractor self)) (tl fl)"
    by blast
  from cat_axis1_shape [OF len h t] obtain feats
    where ca: "cat_axis1 fl = Inr feats" and sh: "has_shape n W feats"
      and rows: "\<forall>i<n. feats ! i = concat (map (\<lambda>t. t ! i) fl)"
    by (auto simp: W gs_def)
  from readout_result [OF o sh ln [unfolded gs_def n_def [symmetric]]
      lp [unfolded gs_def n_def [symmetric]] gp]
  obtain emb where ge: "graph_embedding self obs feats W
       (map (\<lambda>i. map (\<lambda>j. feats ! (i * get_n_nodes obs + j)) [0 ..< get_n_nodes obs])
          [0 ..< get_batch_size obs]) = Inr emb"
    and es: "has_shape (get_batch_size obs) W emb"
    and ro: "readout self obs feats
               = Inr (map (\<lambda>i. map (\<lambda>j. feats ! (i * get_n_nodes obs + j) @ emb ! i)
                                 [0 ..< get_n_nodes obs])
                        [0 ..< get_batch_size obs])"
    by blast
  have fw: "forward self m obs
               = Inr (map (\<lambda>i. map (\<lambda>j. feats ! (i * get_n_nodes obs + j) @ emb ! i)
                                 [0 ..< get_n_nodes obs])
                        [0 ..< get_batch_size obs])"
    by (simp add: forward_def a [unfolded gs_def] mp ca ro)
  show thesis
    by (rule that [OF a [unfolded gs_def] mp ca sh [unfolded n_def] rows [unfolded n_def]
          ln [unfolded gs_def] lp [unfolded gs_def] ge es fw])
qed

lemma example_modules_contract: "modules_contract (example_self c p radj) example_modules"
  by (simp add: modules_contract_def example_modules_def example_self_def has_shape_def
        same_shape_def list_all_iff)

lemma example_obs_wf: "wf_observation example_obs"
  by code_simp



lemma init_features_dim:
  assumes "FeaturesExtractor_init a = Inr self"
  shows "self_features_dim self
           = 2 * (a_input_dim_features_extractor a
                  + self_hidden_dim_features_extractor self
                    * (self_n_layers_features_extractor self + 1))"
  using assms by (auto simp: FeaturesExtractor_init_def split: sum.splits)

lemma zero_block_zeros: "zero_block M (replicate F 0) = replicate F 0"
proof -
  have "min 6 F + (min M (F - 6) + (F - (6 + M))) = F" by (simp add: min_def)
  then show ?thesis
    by (simp add: zero_block_def machine_block_def replicate_add [symmetric] min.commute)
qed

text \<open>The rows that the pooling stage appends are still zero rows when the augmentation ends.\<close>

lemma augment_pooling_rows:
  assumes a: "augment self gs = Inr s" and gp: "self_graph_pooling self = ''learn''"
    and i: "i < gs_num_graphs gs"
  shows "features s ! (length (gs_x gs) + i) = replicate (gs_x_shape1 gs) 0"
proof -
  define p where "p = pooling_stage self gs (initial_locals self gs)"
  have fp: "features p = gs_x gs @ replicate (gs_num_graphs gs) (replicate (gs_x_shape1 gs) 0)"
    using gp by (simp add: p_def pooling_stage_def initial_locals_def Let_def)
  from a obtain c where c: "conflict_stage self gs p = Inr c" and s: "s = reverse_stage self c"
    by (auto simp: augment_def p_def split: sum.splits)
  have fs: "features s = features c" by (simp add: s reverse_stage_def)
  have pi: "features p ! (length (gs_x gs) + i) = replicate (gs_x_shape1 gs) 0"
    using i by (simp add: fp nth_append)
  have li: "length (gs_x gs) + i < length (features p)" using i by (simp add: fp)
  consider "self_conflicts self = ''clique''"
    | "self_conflicts self \<noteq> ''clique''" "self_conflicts self = ''node''"
    | "self_conflicts self \<noteq> ''clique''" "self_conflicts self \<noteq> ''node''"
    by blast
  then have "features c ! (length (gs_x gs) + i) = replicate (gs_x_shape1 gs) 0"
  proof cases
    case 1
    with c have "features c = features p"
      by (auto simp: conflict_stage_def append_edges_def split: sum.splits)
    with pi show ?thesis by simp
  next
    case 2
    with c have "conflict_node self gs p = Inr c" by (simp add: conflict_stage_def)
    then have "features c = map (zero_block (self_max_n_machines self))
                    (features p @ replicate (gs_num_graphs gs * self_max_n_machines self)
                                     (replicate (gs_x_shape1 gs) 0))"
      by (auto simp: conflict_node_def Let_def split: if_splits)
    with li pi show ?thesis by (simp add: nth_append zero_block_zeros)
  next
    case 3
    with c have "c = p" by (simp add: conflict_stage_def)
    with pi show ?thesis by simp
  qed
  with fs show ?thesis by simp
qed

text \<open>
  C3, as stated, fails: the code tests the mode against the string \<open>''learn''\<close>. With
  \<open>''learned''\<close> the augmentation appends no pooling node (the features keep their four
  rows, there is no row 4) and \<open>forward\<close> ends in the exception of line 445.
\<close>

theorem learned_mode_has_no_pooling_node:
  "\<not> isl (augment (example_self ''att'' ''learned'' False) (to_graph example_obs))
   \<and> length (features (projr (augment (example_self ''att'' ''learned'' False)
                                (to_graph example_obs)))) = 4
   \<and> forward (example_self ''att'' ''learned'' False) example_modules example_obs
       = Inl (pooling_not_recognized ''learned'')"
  by code_simp

text \<open>
  C3, amended to the mode \<open>''learn''\<close>. On a single graph of four nodes the augmentation
  appends the zero row of the pooling node at index 4, message passing and concatenation
  give a tensor \<open>feats\<close> with a row 4, made of the rows 4 of the entries of the embedding
  list, the graph embedding is this row and no other, and \<open>forward\<close> returns the rows 0
  to 3 of \<open>feats\<close>, each followed by row 4.
\<close>

theorem learn_pooling_row:
  assumes ob: "wf_observation obs" and c: "modules_contract self m"
    and gp: "self_graph_pooling self = ''learn''"
    and blk: "self_conflicts self = ''clique'' \<or> self_conflicts self = ''node''
                \<longrightarrow> 0 < block_width (gs_x_shape1 (to_graph obs)) (self_max_n_machines self)"
    and b1: "get_batch_size obs = 1" and n4: "get_n_nodes obs = 4"
  shows "\<exists>s fl feats. augment self (to_graph obs) = Inr s
           \<and> message_passing self m s = Inr fl
           \<and> cat_axis1 fl = Inr feats
           \<and> length (gs_x (to_graph obs)) = 4
           \<and> 4 < length (features s)
           \<and> features s ! 4 = replicate (gs_x_shape1 (to_graph obs)) 0
           \<and> length feats = length (features s)
           \<and> feats ! 4 = concat (map (\<lambda>t. t ! 4) fl)
           \<and> (\<forall>K nf. graph_embedding self obs feats K nf = Inr [feats ! 4])
           \<and> forward self m obs = Inr [map (\<lambda>j. feats ! j @ feats ! 4) [0 ..< 4]]"
proof -
  define W where "W = gs_x_shape1 (to_graph obs)
                + self_hidden_dim_features_extractor self
                  * (self_n_layers_features_extractor self + 1)"
  from gp have gp': "self_graph_pooling self \<in> {''max'', ''avg'', ''learn''}" by simp
  from ob b1 n4 have N: "length (gs_x (to_graph obs)) = 4"
    and B: "gs_num_graphs (to_graph obs) = 1"
    by (simp_all add: wf_observation_def)
  show ?thesis
  proof (rule forward_result [OF ob c gp' blk W_def])
    fix s fl feats emb
    assume a: "augment self (to_graph obs) = Inr s"
      and mp: "message_passing self m s = Inr fl"
      and ca: "cat_axis1 fl = Inr feats"
      and sh: "has_shape (length (features s)) W feats"
      and rows: "\<forall>i<length (features s). feats ! i = concat (map (\<lambda>t. t ! i) fl)"
      and lp: "self_graph_pooling self = ''learn''
         \<longrightarrow> length (gs_x (to_graph obs)) + gs_num_graphs (to_graph obs) \<le> length (features s)"
      and ge: "graph_embedding self obs feats W
         (map (\<lambda>i. map (\<lambda>j. feats ! (i * get_n_nodes obs + j)) [0 ..< get_n_nodes obs])
            [0 ..< get_batch_size obs]) = Inr emb"
      and fw: "forward self m obs
         = Inr (map (\<lambda>i. map (\<lambda>j. feats ! (i * get_n_nodes obs + j) @ emb ! i)
                           [0 ..< get_n_nodes obs])
                  [0 ..< get_batch_size obs])"
    from lp gp N B have l5: "4 < length (features s)" by simp
    from sh have lf: "length feats = length (features s)" by (simp add: has_shape_def)
    from augment_pooling_rows [OF a gp, of 0] B N
    have z: "features s ! 4 = replicate (gs_x_shape1 (to_graph obs)) 0" by simp
    from rows l5 have r4: "feats ! 4 = concat (map (\<lambda>t. t ! 4) fl)" by simp
    from l5 lf have d: "take (Suc 0) (drop 4 feats) = [feats ! 4]"
      by (simp add: take_Suc_conv_app_nth)
    have g: "graph_embedding self obs feats K nf = Inr [feats ! 4]" for K nf
      using gp by (simp add: graph_embedding_def Let_def N B d)
    with ge have emb: "emb = [feats ! 4]" by simp
    have "forward self m obs = Inr [map (\<lambda>j. feats ! j @ feats ! 4) [0 ..< 4]]"
      unfolding fw b1 n4 emb by simp
    with a mp ca N l5 z lf r4 g show ?thesis by blast
  qed
qed

text \<open>
  On the four-node example the pooling node is node 4; its row in the concatenated tensor
  is made of its eight zero features, its embedding 1 and its layer output 9, and every
  row of the result ends with it.
\<close>

theorem learn_pooling_row_witness:
  "\<exists>feats. cat_axis1 (projr (message_passing (example_self ''att'' ''learn'' False) example_modules
                (projr (augment (example_self ''att'' ''learn'' False) (to_graph example_obs)))))
              = Inr feats
     \<and> feats ! 4 = [0, 0, 0, 0, 0, 0, 0, 0, 1, 9]
     \<and> forward (example_self ''att'' ''learn'' False) example_modules example_obs
         = Inr [map (\<lambda>j. feats ! j @ feats ! 4) [0 ..< 4]]
     \<and> forward (example_self ''att'' ''learn'' False) example_modules example_obs
         = Inr [[[0, 1, 0, 0, 0, 0, 1, 0, 3, 13, 0, 0, 0, 0, 0, 0, 0, 0, 1, 9],
                 [0, 2, 0, 0, 0, 0, 0, 1, 4, 15, 0, 0, 0, 0, 0, 0, 0, 0, 1, 9],
                 [1, 3, 0, 0, 0, 0, 1, 0, 6, 19, 0, 0, 0, 0, 0, 0, 0, 0, 1, 9],
                 [0, 4, 0, 0, 0, 0, 0, 0, 5, 17, 0, 0, 0, 0, 0, 0, 0, 0, 1, 9]]]"
proof -
  have gp: "self_graph_pooling (example_self ''att'' ''learn'' False) = ''learn''"
    by (simp add: example_self_def)
  have blk: "self_conflicts (example_self ''att'' ''learn'' False) = ''clique''
               \<or> self_conflicts (example_self ''att'' ''learn'' False) = ''node''
             \<longrightarrow> 0 < block_width (gs_x_shape1 (to_graph example_obs))
                        (self_max_n_machines (example_self ''att'' ''learn'' False))"
    by (simp add: example_self_def)
  have b1: "get_batch_size example_obs = 1" and n4: "get_n_nodes example_obs = 4"
    by (simp_all add: example_obs_def)
  have v: "cat_axis1 (projr (message_passing (example_self ''att'' ''learn'' False) example_modules
                (projr (augment (example_self ''att'' ''learn'' False) (to_graph example_obs)))))
             = Inr [[0, 1, 0, 0, 0, 0, 1, 0, 3, 13],
                    [0, 2, 0, 0, 0, 0, 0, 1, 4, 15],
                    [1, 3, 0, 0, 0, 0, 1, 0, 6, 19],
                    [0, 4, 0, 0, 0, 0, 0, 0, 5, 17],
                    [0, 0, 0, 0, 0, 0, 0, 0, 1, 9]]"
    by code_simp
  from learn_pooling_row [OF example_obs_wf example_modules_contract gp blk b1 n4]
  obtain s fl feats where
    "augment (example_self ''att'' ''learn'' False) (to_graph example_obs) = Inr s"
    "message_passing (example_self ''att'' ''learn'' False) example_modules s = Inr fl"
    "cat_axis1 fl = Inr feats"
    "forward (example_self ''att'' ''learn'' False) example_modules example_obs
       = Inr [map (\<lambda>j. feats ! j @ feats ! 4) [0 ..< 4]]"
    by blast
  with v show ?thesis by (simp add: upt_rec)
qed

text \<open>
  C9, as stated, fails for the modes that the specification accepts (\<open>max\<close>, \<open>avg\<close>,
  \<open>learned\<close>): the accepted mode \<open>''learned''\<close> ends in the exception of line 445, and
  the string \<open>''learn''\<close>, which is not in that list, returns a tensor.
\<close>

theorem learned_mode_refused:
  "forward (example_self ''clique'' ''learned'' True) example_modules example_obs
     = Inl (pooling_not_recognized ''learned'')
   \<and> \<not> isl (forward (example_self ''clique'' ''learn'' True) example_modules example_obs)"
  by code_simp

end
